theory Spec2Isabelle
  imports Complex_Main "HOL-Library.Log_Nat"
begin

section \<open>The rectangle store\<close>

text \<open>
  The repository holds several versions of one script. \<open>collision\<close>, \<open>move\<close> and
  \<open>main\<close> below embed the current script, the first one in src/jsgame.script.js.
  \<open>collision_v0\<close> and \<open>move_v0\<close> embed the earlier version in src/unnamed/part_000,
  the one with the distance rule and the 1-unit gap.

  The scene is the list of the document's \<^verbatim>\<open>rect\<close> and \<^verbatim>\<open>image\<close> elements in
  document order, as \<^verbatim>\<open>document.querySelectorAll("rect, image")\<close> enumerates them.
  A DOM node is identified by its position in that list, so \<^verbatim>\<open>r === e\<close> is equality
  of indices, and an index outside the list stands for \<^verbatim>\<open>null\<close>.

  Numbers are JavaScript numbers in the source. A number is modelled as the rational it
  denotes. \<open>collision\<close>, \<open>move\<close> and \<open>main\<close> compute in exact arithmetic: the
  tolerance \<^verbatim>\<open>0.1\<close> is \<open>1/10\<close> there. \<open>collision_double\<close> is \<^verbatim>\<open>collision\<close> once more
  with every sum, difference and literal rounded as IEEE 754 binary64 rounds it; the two
  agree on boxes with integer attributes, which is what \<^verbatim>\<open>svg_clean\<close> leaves in the
  scene, and differ on other doubles. Attribute values are numbers, not strings: the
  parsing of the attribute text (\<^verbatim>\<open>parseFloat(value) || 0\<close>) is not modelled.
\<close>

datatype attr = X | Y | Width | Height

record rect =
  x :: rat
  y :: rat
  width :: rat
  height :: rat
  traversable :: bool
  parent_pattern :: bool
  elevator_class :: bool
  elevator_vel :: "rat option"
  is_on_elevator_previous :: bool

type_synonym store = "rect list"

text \<open>The node at an index, \<open>None\<close> for \<^verbatim>\<open>null\<close>.\<close>

definition node :: "store \<Rightarrow> nat \<Rightarrow> rect option" where
  "node st i = (if i < length st then Some (st ! i) else None)"

section \<open>collision (jsgame.script.js)\<close>

record svg_rect =
  box_left :: rat
  box_right :: rat
  box_top :: rat
  box_bottom :: rat

text \<open>
  \<^verbatim>\<open>getSVGRect\<close>: the bounding box of a \<^verbatim>\<open>rect\<close> or \<^verbatim>\<open>image\<close> element in SVG user
  space, which \<^verbatim>\<open>getBBox()\<close> reads from the element's geometry attributes.
\<close>

definition getSVGRect :: "rect \<Rightarrow> svg_rect" where
  "getSVGRect elem =
     \<lparr>box_left = x elem, box_right = x elem + width elem,
      box_top = y elem, box_bottom = y elem + height elem\<rparr>"

definition tolerance :: rat where
  "tolerance = 1 / 10"

definition collision :: "rect option \<Rightarrow> rect option \<Rightarrow> bool" where
  "collision firstElement secondElement =
     (case firstElement of
        None \<Rightarrow> False
      | Some a \<Rightarrow>
          (case secondElement of
             None \<Rightarrow> False
           | Some b \<Rightarrow>
               (let first = getSVGRect a; second = getSVGRect b
                in box_left first \<le> box_right second + tolerance \<and>
                   box_right first \<ge> box_left second - tolerance \<and>
                   box_top first \<le> box_bottom second + tolerance \<and>
                   box_bottom first \<ge> box_top second - tolerance)))"

subsection \<open>collision in double arithmetic\<close>

text \<open>
  The exponent of a number other than 0: the \<open>e\<close> with \<open>2^e \<le> \<bar>v\<bar> < 2^(e+1)\<close>, from the
  bit length of the integer part, or of the reciprocal for a number below 1.
\<close>

definition exponent :: "rat \<Rightarrow> int" where
  "exponent v = (if 1 \<le> \<bar>v\<bar> then bitlen \<lfloor>\<bar>v\<bar>\<rfloor> - 1 else - bitlen (\<lceil>1 / \<bar>v\<bar>\<rceil> - 1))"

text \<open>Rounding to the nearest integer, a tie to the even one.\<close>

definition round_even :: "rat \<Rightarrow> int" where
  "round_even q =
     (let f = \<lfloor>q\<rfloor>; d = q - of_int f
      in if d < 1 / 2 then f else if 1 / 2 < d then f + 1 else if even f then f else f + 1)"

definition pow2 :: "int \<Rightarrow> rat" where
  "pow2 k = (if 0 \<le> k then 2 ^ nat k else 1 / 2 ^ nat (- k))"

text \<open>
  The double nearest to \<open>v\<close>, a tie to the even significand: 53 significant bits, and
  the fixed spacing \<open>2^-1074\<close> of the subnormal numbers below \<open>2^-1022\<close>. Overflow to
  infinity (a magnitude of \<open>2^1024\<close> and more), the sign of zero and NaN are not
  modelled.
\<close>

definition round_double :: "rat \<Rightarrow> rat" where
  "round_double v =
     (if v = 0 then 0
      else (let u = pow2 (max (exponent v) (- 1022) - 52)
            in of_int (round_even (v / u)) * u))"

text \<open>The literal \<^verbatim>\<open>0.1\<close>.\<close>

definition tolerance_double :: rat where
  "tolerance_double = round_double (1 / 10)"

definition getSVGRect_double :: "rect \<Rightarrow> svg_rect" where
  "getSVGRect_double elem =
     \<lparr>box_left = x elem, box_right = round_double (x elem + width elem),
      box_top = y elem, box_bottom = round_double (y elem + height elem)\<rparr>"

definition collision_double :: "rect option \<Rightarrow> rect option \<Rightarrow> bool" where
  "collision_double firstElement secondElement =
     (case firstElement of
        None \<Rightarrow> False
      | Some a \<Rightarrow>
          (case secondElement of
             None \<Rightarrow> False
           | Some b \<Rightarrow>
               (let first = getSVGRect_double a; second = getSVGRect_double b
                in box_left first \<le> round_double (box_right second + tolerance_double) \<and>
                   box_right first \<ge> round_double (box_left second - tolerance_double) \<and>
                   box_top first \<le> round_double (box_bottom second + tolerance_double) \<and>
                   box_bottom first \<ge> round_double (box_top second - tolerance_double))))"

section \<open>move (jsgame.script.js)\<close>

definition sizeName :: "attr \<Rightarrow> attr" where
  "sizeName axis = (if axis = X then Width else Height)"

fun attr_of :: "rect \<Rightarrow> attr \<Rightarrow> rat" where
  "attr_of r X = x r"
| "attr_of r Y = y r"
| "attr_of r Width = width r"
| "attr_of r Height = height r"

fun attr_update :: "rect \<Rightarrow> attr \<Rightarrow> rat \<Rightarrow> rect" where
  "attr_update r X v = r\<lparr>x := v\<rparr>"
| "attr_update r Y v = r\<lparr>y := v\<rparr>"
| "attr_update r Width v = r\<lparr>width := v\<rparr>"
| "attr_update r Height v = r\<lparr>height := v\<rparr>"

text \<open>\<^verbatim>\<open>getAttrValue\<close>: the exception on a \<^verbatim>\<open>null\<close> element is caught and gives 0.\<close>

definition getAttrValue :: "rect option \<Rightarrow> attr \<Rightarrow> rat" where
  "getAttrValue elem a = (case elem of None \<Rightarrow> 0 | Some r \<Rightarrow> attr_of r a)"

text \<open>\<^verbatim>\<open>Math.round(value * 10) / 10\<close>; \<^verbatim>\<open>Math.round\<close> rounds a half upwards.\<close>

definition round1 :: "rat \<Rightarrow> rat" where
  "round1 v = of_int \<lfloor>v * 10 + 1 / 2\<rfloor> / 10"

text \<open>\<^verbatim>\<open>setAttrValue\<close>: on a \<^verbatim>\<open>null\<close> element the exception is caught, nothing is written.\<close>

definition setAttrValue :: "store \<Rightarrow> nat \<Rightarrow> attr \<Rightarrow> rat \<Rightarrow> store" where
  "setAttrValue st e a v =
     (if e < length st then st[e := attr_update (st ! e) a (round1 v)] else st)"

text \<open>The resting position computed for the obstacle \<open>r\<close> in the body of the loop.\<close>

definition new_position :: "store \<Rightarrow> nat \<Rightarrow> attr \<Rightarrow> rat \<Rightarrow> rat \<Rightarrow> nat \<Rightarrow> rat" where
  "new_position st e axis vel before r =
     (if vel < 0 then
        (let obstacle_bottom = getAttrValue (node st r) axis + getAttrValue (node st r) (sizeName axis)
         in obstacle_bottom + 1)
      else if vel > 0 then
        (let obstacle_top = getAttrValue (node st r) axis;
             element_size = getAttrValue (node st e) (sizeName axis)
         in obstacle_top - element_size - 1)
      else before)"

text \<open>
  The \<^verbatim>\<open>for\<close> loop of \<^verbatim>\<open>move\<close> over the nodes \<open>rs\<close> still to visit. It returns the
  store and \<^verbatim>\<open>collided_with\<close>; the \<^verbatim>\<open>break\<close> is the branch without a recursive call.
\<close>

fun scan :: "store \<Rightarrow> nat \<Rightarrow> attr \<Rightarrow> rat \<Rightarrow> rat \<Rightarrow> nat list \<Rightarrow> store \<times> nat option" where
  "scan st e axis vel before [] = (st, None)"
| "scan st e axis vel before (r # rs) =
     (if r = e then scan st e axis vel before rs
      else if traversable (st ! r) then scan st e axis vel before rs
      else if parent_pattern (st ! r) then scan st e axis vel before rs
      else if collision (node st r) (node st e) then
        (setAttrValue st e axis (new_position st e axis vel before r), Some r)
      else scan st e axis vel before rs)"

text \<open>
  \<^verbatim>\<open>move(movable, axis, vel, stopped)\<close> returns the store, \<^verbatim>\<open>difference\<close> and
  \<^verbatim>\<open>collided_with\<close>. The callback \<^verbatim>\<open>stopped\<close> is left to the caller: it is called with
  \<open>stopped_with\<close> of the result when that is not \<open>None\<close>.
\<close>

definition move :: "store \<Rightarrow> nat \<Rightarrow> attr \<Rightarrow> rat \<Rightarrow> store \<times> rat \<times> nat option" where
  "move st e axis vel =
     (let before = getAttrValue (node st e) axis;
          st1 = setAttrValue st e axis (before + vel);
          res = scan st1 e axis vel before [0..<length st1];
          after = getAttrValue (node (fst res) e) axis;
          difference = after - before
      in (fst res, difference, snd res))"

definition stopped_with :: "store \<times> rat \<times> nat option \<Rightarrow> nat option" where
  "stopped_with res = (if fst (snd res) = 0 then snd (snd res) else None)"

section \<open>main (jsgame.script.js)\<close>

text \<open>
  The input latch (\<^verbatim>\<open>left\<close>, \<^verbatim>\<open>right\<close>, \<^verbatim>\<open>jumping\<close>) as one tick reads it, and the
  state that lives from tick to tick: the store with the elevators' own properties, and
  the globals \<^verbatim>\<open>jumping_previous\<close>, \<^verbatim>\<open>jump_counter\<close>, \<^verbatim>\<open>ground_previous\<close> and
  \<^verbatim>\<open>running\<close>. The console output and the sprite's mirror image are left out.
\<close>

record input =
  left :: bool
  right :: bool
  jumping :: bool

record game =
  store :: store
  jumping_previous :: bool
  jump_counter :: int
  ground_previous :: "nat option"
  running :: rat

text \<open>\<^verbatim>\<open>document.querySelectorAll(".elevator")\<close>: the nodes of class elevator, in order.\<close>

definition elevators :: "store \<Rightarrow> nat list" where
  "elevators st = filter (\<lambda>j. elevator_class (st ! j)) [0..<length st]"

text \<open>\<^verbatim>\<open>if (!elevator.elevator_vel) elevator.elevator_vel = +1\<close>: unset and 0 are falsy.\<close>

definition elevator_init :: "store \<Rightarrow> nat \<Rightarrow> store" where
  "elevator_init st elevator =
     (if elevator_vel (st ! elevator) = None \<or> elevator_vel (st ! elevator) = Some 0
      then st[elevator := (st ! elevator)\<lparr>elevator_vel := Some 1\<rparr>] else st)"

text \<open>Reading \<^verbatim>\<open>elevator.elevator_vel\<close>; it is read after \<open>elevator_init\<close> only.\<close>

definition current_vel :: "store \<Rightarrow> nat \<Rightarrow> rat" where
  "current_vel st elevator = (case elevator_vel (st ! elevator) of None \<Rightarrow> 0 | Some v \<Rightarrow> v)"

text \<open>\<^verbatim>\<open>elevator.elevator_vel = -elevator.elevator_vel\<close>\<close>

definition reverse_vel :: "store \<Rightarrow> nat \<Rightarrow> store" where
  "reverse_vel st elevator =
     st[elevator := (st ! elevator)\<lparr>elevator_vel := map_option uminus (elevator_vel (st ! elevator))\<rparr>]"

text \<open>\<^verbatim>\<open>elevator.is_on_elevator_previous = is_on_elevator\<close>\<close>

definition mark_on_elevator :: "store \<Rightarrow> nat \<Rightarrow> bool \<Rightarrow> store" where
  "mark_on_elevator st elevator is_on_elevator =
     st[elevator := (st ! elevator)\<lparr>is_on_elevator_previous := is_on_elevator\<rparr>]"

text \<open>
  The first half of the loop body for one elevator: the lazy initialisation, the
  bookkeeping of \<^verbatim>\<open>is_on_elevator_previous\<close>, and the coupling of the player to the
  elevator it stands on.
\<close>

definition carry_player :: "nat \<Rightarrow> nat option \<Rightarrow> store \<Rightarrow> nat \<Rightarrow> store" where
  "carry_player m ground st elevator =
     (let st1 = elevator_init st elevator;
          is_on_elevator = (ground = Some elevator);
          st2 = mark_on_elevator st1 elevator is_on_elevator
      in if is_on_elevator then fst (move st2 m Y (current_vel st2 elevator)) else st2)"

text \<open>
  The second half: the elevator's own move and its \<^verbatim>\<open>stopped\<close> callback, with the two
  branches of the callback as the source has them.
\<close>

definition elevator_move :: "nat \<Rightarrow> store \<Rightarrow> nat \<Rightarrow> store" where
  "elevator_move m st elevator =
     (let res = move st elevator Y (current_vel st elevator)
      in case stopped_with res of
           None \<Rightarrow> fst res
         | Some collided_with \<Rightarrow>
             (if collided_with = m then reverse_vel (fst res) elevator
              else reverse_vel (fst res) elevator))"

definition elevator_step :: "nat \<Rightarrow> nat option \<Rightarrow> store \<Rightarrow> nat \<Rightarrow> store" where
  "elevator_step m ground st elevator =
     elevator_move m (carry_player m ground st elevator) elevator"

text \<open>\<^verbatim>\<open>running\<close> as the chain of tests on \<^verbatim>\<open>left\<close> and \<^verbatim>\<open>right\<close> sets it.\<close>

definition run_direction :: "input \<Rightarrow> rat" where
  "run_direction inp =
     (if left inp \<and> right inp then 0
      else if left inp then - 1
      else if right inp then 1
      else 0)"

text \<open>
  One tick. \<open>m\<close> is the node \<^verbatim>\<open>document.querySelector("#movable")\<close>. The local
  variables keep the source's names, numbered by assignment.
\<close>

definition main :: "nat \<Rightarrow> input \<Rightarrow> game \<Rightarrow> game" where
  "main m inp g =
     (let fall = move (store g) m Y 3;
          y_difference1 = fst (snd fall);
          ground = stopped_with fall;
          st1 = fst fall;
          st2 = foldl (elevator_step m ground) st1 (elevators st1);
          jump_counter1 =
            (if jumping inp \<and> \<not> jumping_previous g \<and> ground \<noteq> None then 15 else jump_counter g);
          rise = move st2 m Y (- 5);
          jump_counter2 = (if jump_counter1 > 0 then jump_counter1 - 1 else jump_counter1);
          y_difference2 =
            (if jump_counter1 > 0 then y_difference1 + fst (snd rise) else y_difference1);
          st3 = (if jump_counter1 > 0 then fst rise else st2);
          jump_counter3 = (if y_difference2 = 0 \<and> jump_counter2 > 0 then 0 else jump_counter2);
          st4 = fst (move st3 m X (3 * run_direction inp))
      in \<lparr>store = st4, jumping_previous = jumping inp, jump_counter = jump_counter3,
          ground_previous = ground, running = run_direction inp\<rparr>)"

subsection \<open>What a tick computes on its way\<close>

text \<open>
  The intermediate values of \<open>main\<close>, named so that statements about a tick can
  mention them: the ground of the tick, the store after the loop over the elevators,
  the test that starts a jump, the counter after that test, and \<^verbatim>\<open>y_difference\<close> at
  the roof test.
\<close>

definition tick_ground :: "nat \<Rightarrow> game \<Rightarrow> nat option" where
  "tick_ground m g = stopped_with (move (store g) m Y 3)"

definition after_gravity :: "nat \<Rightarrow> game \<Rightarrow> store" where
  "after_gravity m g = fst (move (store g) m Y 3)"

definition after_elevators :: "nat \<Rightarrow> game \<Rightarrow> store" where
  "after_elevators m g =
     foldl (elevator_step m (tick_ground m g)) (after_gravity m g) (elevators (after_gravity m g))"

definition jump_trigger :: "nat \<Rightarrow> input \<Rightarrow> game \<Rightarrow> bool" where
  "jump_trigger m inp g = (jumping inp \<and> \<not> jumping_previous g \<and> tick_ground m g \<noteq> None)"

definition jump_counter_set :: "nat \<Rightarrow> input \<Rightarrow> game \<Rightarrow> int" where
  "jump_counter_set m inp g = (if jump_trigger m inp g then 15 else jump_counter g)"

definition y_difference :: "nat \<Rightarrow> input \<Rightarrow> game \<Rightarrow> rat" where
  "y_difference m inp g =
     (if jump_counter_set m inp g > 0
      then fst (snd (move (store g) m Y 3)) + fst (snd (move (after_elevators m g) m Y (- 5)))
      else fst (snd (move (store g) m Y 3)))"

text \<open>
  The store in which the loop over the elevators reaches the elevator \<open>el\<close>, the
  velocity that elevator has for this tick (after the lazy initialisation), and the
  result of the elevator's own move.
\<close>

definition elevator_entry :: "nat \<Rightarrow> game \<Rightarrow> nat \<Rightarrow> store" where
  "elevator_entry m g el =
     foldl (elevator_step m (tick_ground m g)) (after_gravity m g)
       (takeWhile (\<lambda>j. j \<noteq> el) (elevators (after_gravity m g)))"

definition tick_vel :: "nat \<Rightarrow> game \<Rightarrow> nat \<Rightarrow> rat" where
  "tick_vel m g el = current_vel (elevator_init (elevator_entry m g el) el) el"

definition own_move :: "nat \<Rightarrow> game \<Rightarrow> nat \<Rightarrow> store \<times> rat \<times> nat option" where
  "own_move m g el =
     (let st = carry_player m (tick_ground m g) (elevator_entry m g el) el
      in move st el Y (current_vel st el))"

text \<open>A run of ticks, one input snapshot per tick.\<close>

fun run :: "nat \<Rightarrow> input list \<Rightarrow> game \<Rightarrow> game" where
  "run m [] g = g"
| "run m (inp # inps) g = run m inps (main m inp g)"

section \<open>The earlier move with the distance rule (src/unnamed/part_000)\<close>

text \<open>
  The variant of \<^verbatim>\<open>collision\<close> and \<^verbatim>\<open>move\<close> in src/unnamed/part_000. It reads the
  attributes with \<^verbatim>\<open>parseInt\<close>, accepts a resting position only when it is \<^verbatim>\<open>valid\<close>,
  and has no \<^verbatim>\<open>break\<close>: the loop goes on after a collision. Its \<^verbatim>\<open>collision\<close> compares
  the boxes of \<^verbatim>\<open>getBoundingClientRect()\<close> with no tolerance; the boxes are taken
  from the geometry attributes here (a viewport that shows user units unscaled).
  A \<^verbatim>\<open>null\<close> element makes \<^verbatim>\<open>e.attributes\<close> throw: the result \<open>None\<close>.
\<close>

text \<open>\<^verbatim>\<open>parseInt\<close> of a number's text: the digits before the point, so truncation to 0.\<close>

definition parseInt :: "rat \<Rightarrow> rat" where
  "parseInt v = (if v \<ge> 0 then of_int \<lfloor>v\<rfloor> else of_int \<lceil>v\<rceil>)"

definition collision_v0 :: "rect \<Rightarrow> rect \<Rightarrow> bool" where
  "collision_v0 firstElement secondElement =
     (let first = getSVGRect firstElement; second = getSVGRect secondElement
      in box_left first \<le> box_right second \<and>
         box_right first \<ge> box_left second \<and>
         box_top first \<le> box_bottom second \<and>
         box_bottom first \<ge> box_top second)"

definition new_position_v0 :: "store \<Rightarrow> nat \<Rightarrow> attr \<Rightarrow> rat \<Rightarrow> rat \<Rightarrow> nat \<Rightarrow> rat" where
  "new_position_v0 st e axis vel before r =
     (if vel < 0 then
        (let new_position_lt =
               1 + parseInt (attr_of (st ! r) axis) + parseInt (attr_of (st ! r) (sizeName axis));
             valid = (\<bar>new_position_lt - before\<bar> \<le> \<bar>vel\<bar>)
         in if valid then new_position_lt else before)
      else if vel > 0 then
        (let new_position_gt =
               - 1 + parseInt (attr_of (st ! r) axis) - parseInt (attr_of (st ! e) (sizeName axis));
             valid = (\<bar>new_position_gt - before\<bar> \<le> \<bar>vel\<bar>)
         in if valid then new_position_gt else before)
      else before)"

fun scan_v0 ::
  "store \<Rightarrow> nat \<Rightarrow> attr \<Rightarrow> rat \<Rightarrow> rat \<Rightarrow> nat list \<Rightarrow> nat option \<Rightarrow> store \<times> nat option" where
  "scan_v0 st e axis vel before [] collided_with = (st, collided_with)"
| "scan_v0 st e axis vel before (r # rs) collided_with =
     (if r = e then scan_v0 st e axis vel before rs collided_with
      else if traversable (st ! r) then scan_v0 st e axis vel before rs collided_with
      else if collision_v0 (st ! r) (st ! e) then
        scan_v0 (st[e := attr_update (st ! e) axis (new_position_v0 st e axis vel before r)])
          e axis vel before rs (Some r)
      else scan_v0 st e axis vel before rs collided_with)"

definition move_v0 :: "store \<Rightarrow> nat \<Rightarrow> attr \<Rightarrow> rat \<Rightarrow> (store \<times> rat \<times> nat option) option" where
  "move_v0 st e axis vel =
     (if e < length st then
        (let before = parseInt (attr_of (st ! e) axis);
             st1 = st[e := attr_update (st ! e) axis (before + vel)];
             res = scan_v0 st1 e axis vel before [0..<length st1] None;
             after = attr_of (fst res ! e) axis;
             difference = after - before
         in Some (fst res, difference, snd res))
      else None)"

text \<open>
  The clamped resting position against the obstacle \<open>r\<close>, before the test \<^verbatim>\<open>valid\<close>:
  \<^verbatim>\<open>new_position_lt\<close> for a negative velocity, \<^verbatim>\<open>new_position_gt\<close> for a positive one.
\<close>

definition resting_position_v0 :: "store \<Rightarrow> nat \<Rightarrow> attr \<Rightarrow> rat \<Rightarrow> nat \<Rightarrow> rat" where
  "resting_position_v0 st e axis vel r =
     (if vel < 0
      then 1 + parseInt (attr_of (st ! r) axis) + parseInt (attr_of (st ! r) (sizeName axis))
      else - 1 + parseInt (attr_of (st ! r) axis) - parseInt (attr_of (st ! e) (sizeName axis)))"

section \<open>Notions used in the statements\<close>

text \<open>
  The store with the entity at its tentative position, before the loop of \<open>move\<close>.
\<close>

definition tentative :: "store \<Rightarrow> nat \<Rightarrow> attr \<Rightarrow> rat \<Rightarrow> store" where
  "tentative st e axis vel = setAttrValue st e axis (getAttrValue (node st e) axis + vel)"

text \<open>
  The tests of the loop body of \<open>move\<close> on the node \<open>r\<close>: it is not the entity, not
  traversable, not under a pattern, and it collides with the entity.
\<close>

definition hit :: "store \<Rightarrow> nat \<Rightarrow> nat \<Rightarrow> bool" where
  "hit st e r = (r \<noteq> e \<and> \<not> traversable (st ! r) \<and> \<not> parent_pattern (st ! r) \<and>
     collision (node st r) (node st e))"

text \<open>
  Two stores that differ at most in the attribute \<open>axis\<close> of the node \<open>e\<close>.
\<close>

definition same_but :: "nat \<Rightarrow> attr \<Rightarrow> store \<Rightarrow> store \<Rightarrow> bool" where
  "same_but e axis st st' =
     (length st' = length st \<and> (\<forall>k. k \<noteq> e \<longrightarrow> st' ! k = st ! k) \<and>
      (\<forall>a. a \<noteq> axis \<longrightarrow> attr_of (st' ! e) a = attr_of (st ! e) a))"

text \<open>
  Over a run of ticks: no tick has \<^verbatim>\<open>y_difference\<close> equal to 0 at the roof test, and
  no tick starts a jump.
\<close>

fun no_roof_hit :: "nat \<Rightarrow> input list \<Rightarrow> game \<Rightarrow> bool" where
  "no_roof_hit m [] g = True"
| "no_roof_hit m (inp # inps) g = (y_difference m inp g \<noteq> 0 \<and> no_roof_hit m inps (main m inp g))"

fun no_new_jump :: "nat \<Rightarrow> input list \<Rightarrow> game \<Rightarrow> bool" where
  "no_new_jump m [] g = True"
| "no_new_jump m (inp # inps) g = (\<not> jump_trigger m inp g \<and> no_new_jump m inps (main m inp g))"

text \<open>
  A number that is an integer, and a rectangle whose four geometry attributes are
  integers of magnitude at most \<open>2^50\<close>.
\<close>

definition whole :: "rat \<Rightarrow> bool" where
  "whole v = (of_int \<lfloor>v\<rfloor> = v)"

definition plain :: "rect \<Rightarrow> bool" where
  "plain r =
     (whole (x r) \<and> whole (y r) \<and> whole (width r) \<and> whole (height r) \<and>
      \<bar>x r\<bar> \<le> 2 ^ 50 \<and> \<bar>y r\<bar> \<le> 2 ^ 50 \<and> \<bar>width r\<bar> \<le> 2 ^ 50 \<and> \<bar>height r\<bar> \<le> 2 ^ 50)"

text \<open>A solid rectangle with the given geometry, for the example scenes.\<close>

definition solid :: "rat \<Rightarrow> rat \<Rightarrow> rat \<Rightarrow> rat \<Rightarrow> rect" where
  "solid a b w h =
     \<lparr>x = a, y = b, width = w, height = h, traversable = False, parent_pattern = False,
      elevator_class = False, elevator_vel = None, is_on_elevator_previous = False\<rparr>"

text \<open>An elevator with the given geometry, its velocity not yet set.\<close>

definition lift :: "rat \<Rightarrow> rat \<Rightarrow> rat \<Rightarrow> rat \<Rightarrow> rect" where
  "lift a b w h = (solid a b w h)\<lparr>elevator_class := True\<rparr>"

text \<open>The globals as the script initialises them, over a given scene.\<close>

definition start_game :: "store \<Rightarrow> game" where
  "start_game st =
     \<lparr>store = st, jumping_previous = False, jump_counter = 0, ground_previous = None,
      running = 0\<rparr>"

text \<open>The input latch with no key held, and with the jump key held.\<close>

definition no_keys :: input where
  "no_keys = \<lparr>left = False, right = False, jumping = False\<rparr>"

definition right_key :: input where
  "right_key = \<lparr>left = False, right = True, jumping = False\<rparr>"

definition jump_key :: input where
  "jump_key = \<lparr>left = False, right = False, jumping = True\<rparr>"

section \<open>Properties of collision\<close>

text \<open>
  In exact arithmetic the four comparisons are symmetric, for all boxes and also when an
  element is null.
\<close>

lemma collision_exact_symmetric: "collision a b = collision b a"
  by (cases a; cases b) (auto simp: collision_def Let_def)

subsection \<open>Rounding to a double\<close>

lemma round_even_nearest: "\<bar>of_int (round_even q) - q\<bar> \<le> \<bar>of_int j - q\<bar>"
proof -
  let ?f = "\<lfloor>q\<rfloor>"
  have f: "of_int ?f \<le> q" "q < of_int ?f + 1" by linarith+
  have "j \<le> ?f \<or> ?f + 1 \<le> j" by linarith
  then have j: "(of_int j :: rat) \<le> of_int ?f \<or> of_int ?f + 1 \<le> (of_int j :: rat)"
    by (metis of_int_le_iff of_int_add of_int_1)
  have r: "round_even q = ?f \<and> q - of_int ?f \<le> 1 / 2 \<or>
           round_even q = ?f + 1 \<and> 1 / 2 \<le> q - of_int ?f"
    by (auto simp: round_even_def Let_def)
  from r j f show ?thesis by (auto simp: abs_le_iff) linarith+
qed

lemma pow2_pos: "0 < pow2 k"
  by (simp add: pow2_def)

lemma on_grid:
  assumes "e \<le> 52"
  shows "of_int (k * 2 ^ nat (52 - e)) * pow2 (e - 52) = of_int k"
proof (cases "e = 52")
  case True
  then show ?thesis by (simp add: pow2_def)
next
  case False
  with assms have "\<not> 0 \<le> e - 52" "- (e - 52) = 52 - e" by simp_all
  then show ?thesis by (simp add: pow2_def)
qed

lemma scale_abs:
  assumes "0 < (u :: rat)"
  shows "\<bar>a - v / u\<bar> * u = \<bar>a * u - v\<bar>"
proof -
  have "\<bar>a - v / u\<bar> * u = \<bar>a - v / u\<bar> * \<bar>u\<bar>" using assms by simp
  also have "\<dots> = \<bar>(a - v / u) * u\<bar>" by (simp only: abs_mult)
  also have "(a - v / u) * u = a * u - v" using assms by (simp add: field_simps)
  finally show ?thesis .
qed

lemma double_nearest:
  assumes "max (exponent v) (- 1022) \<le> 52"
  shows "\<bar>round_double v - v\<bar> \<le> \<bar>of_int k - v\<bar>"
proof (cases "v = 0")
  case True
  then show ?thesis by (simp add: round_double_def)
next
  case False
  let ?u = "pow2 (max (exponent v) (- 1022) - 52)"
  let ?j = "k * 2 ^ nat (52 - max (exponent v) (- 1022))"
  have u: "0 < ?u" by (rule pow2_pos)
  have d: "round_double v = of_int (round_even (v / ?u)) * ?u"
    using False by (simp add: round_double_def Let_def)
  have "\<bar>of_int (round_even (v / ?u)) - v / ?u\<bar> \<le> \<bar>of_int ?j - v / ?u\<bar>"
    by (rule round_even_nearest)
  then have "\<bar>of_int (round_even (v / ?u)) - v / ?u\<bar> * ?u \<le> \<bar>of_int ?j - v / ?u\<bar> * ?u"
    using u by (intro mult_right_mono) simp_all
  then have "\<bar>of_int (round_even (v / ?u)) * ?u - v\<bar> \<le> \<bar>of_int ?j * ?u - v\<bar>"
    by (simp only: scale_abs [OF u])
  then show ?thesis by (simp only: d on_grid [OF assms])
qed

lemma exponent_small:
  assumes "\<bar>v\<bar> < 2 ^ 53"
  shows "max (exponent v) (- 1022) \<le> 52"
proof (cases "1 \<le> \<bar>v\<bar>")
  case True
  have "\<lfloor>\<bar>v\<bar>\<rfloor> < 2 ^ 53" using assms by (simp add: floor_less_iff)
  then have "bitlen \<lfloor>\<bar>v\<bar>\<rfloor> \<le> 53" by (simp add: bitlen_le_iff_power)
  with True show ?thesis by (simp add: exponent_def)
next
  case False
  then show ?thesis using bitlen_nonneg [of "\<lceil>1 / \<bar>v\<bar>\<rceil> - 1"] by (simp add: exponent_def)
qed

lemma double_of_int: "\<bar>of_int k :: rat\<bar> < 2 ^ 53 \<Longrightarrow> round_double (of_int k) = of_int k"
  using double_nearest [OF exponent_small, of "of_int k" k] by simp

lemma tolerance_double_value: "tolerance_double = 7205759403792794 / 2 ^ 56"
  by code_simp

lemma tolerance_double_bounds: "0 < tolerance_double" "tolerance_double < 1 / 2"
  by (simp_all add: tolerance_double_value)

lemma double_plus_tolerance:
  assumes "\<bar>of_int b :: rat\<bar> \<le> 2 ^ 52"
  shows "(of_int a \<le> round_double (of_int b + tolerance_double)) = (a \<le> b)"
proof -
  let ?t = tolerance_double and ?v = "of_int b + tolerance_double :: rat"
  have "\<bar>?v\<bar> < 2 ^ 53" using assms tolerance_double_bounds by (simp add: abs_less_iff abs_le_iff)
  from double_nearest [OF exponent_small [OF this], of b]
  have "\<bar>round_double ?v - ?v\<bar> \<le> ?t" using tolerance_double_bounds by simp
  then have lo: "of_int b \<le> round_double ?v" and hi: "round_double ?v < of_int b + 1"
    using tolerance_double_bounds by (simp_all add: abs_le_iff)
  show ?thesis
  proof
    assume "of_int a \<le> round_double ?v"
    with hi have "(of_int a :: rat) < of_int (b + 1)" by simp
    then have "a < b + 1" by (simp only: of_int_less_iff)
    then show "a \<le> b" by simp
  next
    assume "a \<le> b"
    then have "(of_int a :: rat) \<le> of_int b" by simp
    with lo show "of_int a \<le> round_double ?v" by simp
  qed
qed

lemma double_minus_tolerance:
  assumes "\<bar>of_int b :: rat\<bar> \<le> 2 ^ 52"
  shows "(round_double (of_int b - tolerance_double) \<le> of_int a) = (b \<le> a)"
proof -
  let ?t = tolerance_double and ?v = "of_int b - tolerance_double :: rat"
  have "\<bar>?v\<bar> < 2 ^ 53" using assms tolerance_double_bounds by (simp add: abs_less_iff abs_le_iff)
  from double_nearest [OF exponent_small [OF this], of b]
  have "\<bar>round_double ?v - ?v\<bar> \<le> ?t" using tolerance_double_bounds by simp
  then have hi: "round_double ?v \<le> of_int b" and lo: "of_int b - 1 < round_double ?v"
    using tolerance_double_bounds by (simp_all add: abs_le_iff)
  show ?thesis
  proof
    assume "round_double ?v \<le> of_int a"
    with lo have "(of_int (b - 1) :: rat) < of_int a" by simp
    then have "b - 1 < a" by (simp only: of_int_less_iff)
    then show "b \<le> a" by simp
  next
    assume "b \<le> a"
    then have "(of_int b :: rat) \<le> of_int a" by simp
    with hi show "round_double ?v \<le> of_int a" by simp
  qed
qed


lemma whole_floor: "whole v \<Longrightarrow> v = of_int \<lfloor>v\<rfloor>"
  unfolding whole_def by (rule sym)

lemma exact_plus_tolerance: "((of_int a :: rat) \<le> of_int b + tolerance) = (a \<le> b)"
proof
  assume "(of_int a :: rat) \<le> of_int b + tolerance"
  then have "(of_int a :: rat) < of_int (b + 1)" by (simp add: tolerance_def)
  then have "a < b + 1" by (simp only: of_int_less_iff)
  then show "a \<le> b" by simp
next
  assume "a \<le> b"
  then have "(of_int a :: rat) \<le> of_int b" by simp
  then show "(of_int a :: rat) \<le> of_int b + tolerance" by (simp add: tolerance_def)
qed

lemma exact_minus_tolerance: "((of_int b :: rat) - tolerance \<le> of_int a) = (b \<le> a)"
  using exact_plus_tolerance [of b a] by (simp add: algebra_simps)

text \<open>
  On plain rectangles both versions of the test are the closed overlap test on the
  integer boxes.
\<close>

lemma collision_double_plain:
  assumes "plain a" "plain b"
  shows "collision_double (Some a) (Some b) =
     (\<lfloor>x a\<rfloor> \<le> \<lfloor>x b\<rfloor> + \<lfloor>width b\<rfloor> \<and> \<lfloor>x b\<rfloor> \<le> \<lfloor>x a\<rfloor> + \<lfloor>width a\<rfloor> \<and>
      \<lfloor>y a\<rfloor> \<le> \<lfloor>y b\<rfloor> + \<lfloor>height b\<rfloor> \<and> \<lfloor>y b\<rfloor> \<le> \<lfloor>y a\<rfloor> + \<lfloor>height a\<rfloor>)"
proof -
  have side: "round_double (p + w) = of_int (\<lfloor>p\<rfloor> + \<lfloor>w\<rfloor>) \<and>
      \<bar>of_int (\<lfloor>p\<rfloor> + \<lfloor>w\<rfloor>) :: rat\<bar> \<le> 2 ^ 52 \<and> \<bar>of_int \<lfloor>p\<rfloor> :: rat\<bar> \<le> 2 ^ 52"
    if "whole p" "whole w" "\<bar>p\<bar> \<le> 2 ^ 50" "\<bar>w\<bar> \<le> 2 ^ 50" for p w :: rat
  proof -
    have pw: "p = of_int \<lfloor>p\<rfloor>" "w = of_int \<lfloor>w\<rfloor>" using that(1,2) by (simp_all add: whole_floor)
    have s: "p + w = of_int (\<lfloor>p\<rfloor> + \<lfloor>w\<rfloor>)" using pw by simp
    have b: "\<bar>p + w\<bar> \<le> 2 ^ 51" using that(3,4) by (simp add: abs_le_iff)
    then have "\<bar>of_int (\<lfloor>p\<rfloor> + \<lfloor>w\<rfloor>) :: rat\<bar> < 2 ^ 53" unfolding s by simp
    then have "round_double (of_int (\<lfloor>p\<rfloor> + \<lfloor>w\<rfloor>)) = of_int (\<lfloor>p\<rfloor> + \<lfloor>w\<rfloor>)"
      by (rule double_of_int)
    moreover have "\<bar>of_int (\<lfloor>p\<rfloor> + \<lfloor>w\<rfloor>) :: rat\<bar> \<le> 2 ^ 52" using b unfolding s by simp
    moreover have "\<bar>of_int \<lfloor>p\<rfloor> :: rat\<bar> \<le> 2 ^ 52" using that(3) pw(1) by simp
    ultimately show ?thesis using s by simp
  qed
  have test: "(p \<le> round_double (round_double (q + w) + tolerance_double)) = (\<lfloor>p\<rfloor> \<le> \<lfloor>q\<rfloor> + \<lfloor>w\<rfloor>) \<and>
      (round_double (p - tolerance_double) \<le> round_double (q + w)) = (\<lfloor>p\<rfloor> \<le> \<lfloor>q\<rfloor> + \<lfloor>w\<rfloor>)"
    if "whole p" "whole q" "whole w" "\<bar>p\<bar> \<le> 2 ^ 50" "\<bar>q\<bar> \<le> 2 ^ 50" "\<bar>w\<bar> \<le> 2 ^ 50"
    for p q w :: rat
  proof -
    have p: "p = of_int \<lfloor>p\<rfloor>" using that(1) by (rule whole_floor)
    have pb: "\<bar>of_int \<lfloor>p\<rfloor> :: rat\<bar> \<le> 2 ^ 52" using that(4) p by simp
    note q = side [OF that(2,3,5,6)]
    have "(of_int \<lfloor>p\<rfloor> \<le> round_double (of_int (\<lfloor>q\<rfloor> + \<lfloor>w\<rfloor>) + tolerance_double)) =
        (\<lfloor>p\<rfloor> \<le> \<lfloor>q\<rfloor> + \<lfloor>w\<rfloor>)"
      using q by (intro double_plus_tolerance) simp
    moreover have "(round_double (of_int \<lfloor>p\<rfloor> - tolerance_double) \<le> of_int (\<lfloor>q\<rfloor> + \<lfloor>w\<rfloor>)) =
        (\<lfloor>p\<rfloor> \<le> \<lfloor>q\<rfloor> + \<lfloor>w\<rfloor>)"
      using pb by (rule double_minus_tolerance)
    ultimately show ?thesis using q p by metis
  qed
  note xa = test [of "x a" "x b" "width b"] and xb = test [of "x b" "x a" "width a"]
    and ya = test [of "y a" "y b" "height b"] and yb = test [of "y b" "y a" "height a"]
  show ?thesis
    using assms xa xb ya yb
    by (simp add: collision_double_def getSVGRect_double_def Let_def plain_def)
qed

lemma collision_plain:
  assumes "plain a" "plain b"
  shows "collision (Some a) (Some b) =
     (\<lfloor>x a\<rfloor> \<le> \<lfloor>x b\<rfloor> + \<lfloor>width b\<rfloor> \<and> \<lfloor>x b\<rfloor> \<le> \<lfloor>x a\<rfloor> + \<lfloor>width a\<rfloor> \<and>
      \<lfloor>y a\<rfloor> \<le> \<lfloor>y b\<rfloor> + \<lfloor>height b\<rfloor> \<and> \<lfloor>y b\<rfloor> \<le> \<lfloor>y a\<rfloor> + \<lfloor>height a\<rfloor>)"
proof -
  have test: "(p \<le> q + w + tolerance) = (\<lfloor>p\<rfloor> \<le> \<lfloor>q\<rfloor> + \<lfloor>w\<rfloor>) \<and>
      (p - tolerance \<le> q + w) = (\<lfloor>p\<rfloor> \<le> \<lfloor>q\<rfloor> + \<lfloor>w\<rfloor>)"
    if "whole p" "whole q" "whole w" for p q w :: rat
  proof -
    have e: "p = of_int \<lfloor>p\<rfloor>" "q + w = of_int (\<lfloor>q\<rfloor> + \<lfloor>w\<rfloor>)"
      using that whole_floor [of p] whole_floor [of q] whole_floor [of w] by simp_all
    show ?thesis
      using exact_plus_tolerance [of "\<lfloor>p\<rfloor>" "\<lfloor>q\<rfloor> + \<lfloor>w\<rfloor>"]
        exact_minus_tolerance [of "\<lfloor>p\<rfloor>" "\<lfloor>q\<rfloor> + \<lfloor>w\<rfloor>"] e by metis
  qed
  note xa = test [of "x a" "x b" "width b"] and xb = test [of "x b" "x a" "width a"]
    and ya = test [of "y a" "y b" "height b"] and yb = test [of "y b" "y a" "height a"]
  show ?thesis
    using assms xa xb ya yb
    by (simp add: collision_def getSVGRect_def Let_def plain_def)
qed

lemma collision_double_null:
  "collision_double None b = collision_double b None"
  by (cases b) (simp_all add: collision_double_def)

text \<open>
  C8, as the code has it. For every pair of rectangles A and B whose x, y, width and
  height are integers of magnitude at most \<open>2^50\<close>, the test in double arithmetic, with
  the tolerance \<^verbatim>\<open>0.1\<close> added and subtracted as doubles, returns the same boolean for
  (A, B) and for (B, A), and it is the boolean of the test in exact arithmetic.
\<close>

theorem collision_double_symmetric:
  assumes "plain a" and "plain b"
  shows "collision_double (Some a) (Some b) = collision_double (Some b) (Some a) \<and>
         collision_double (Some a) (Some b) = collision (Some a) (Some b)"
  unfolding collision_double_plain [OF assms] collision_double_plain [OF assms(2,1)]
    collision_plain [OF assms]
  by auto

theorem collision_double_symmetric_witness:
  "plain (solid 0 0 10 10) \<and> plain (solid 10 5 4 4) \<and>
   collision_double (Some (solid 0 0 10 10)) (Some (solid 10 5 4 4)) \<and>
   collision_double (Some (solid 10 5 4 4)) (Some (solid 0 0 10 10)) \<and>
   collision (Some (solid 0 0 10 10)) (Some (solid 10 5 4 4))"
proof -
  have p: "plain (solid 0 0 10 10)" "plain (solid 10 5 4 4)"
    by (simp_all add: plain_def whole_def solid_def)
  have c: "collision_double (Some (solid 0 0 10 10)) (Some (solid 10 5 4 4))" by code_simp
  from collision_double_symmetric [OF p] c
  have "collision_double (Some (solid 10 5 4 4)) (Some (solid 0 0 10 10))"
    and "collision (Some (solid 0 0 10 10)) (Some (solid 10 5 4 4))" by blast+
  with p c show ?thesis by blast
qed

text \<open>
  The claim C8 for all rectangles fails on doubles that are not integers. A has x 0 and
  the width written \<^verbatim>\<open>0.3\<close>, B has the x written \<^verbatim>\<open>0.4\<close>, and they overlap on the other
  axis. \<^verbatim>\<open>0.4 - 0.1\<close> is the double above \<^verbatim>\<open>0.3\<close>, so (A, B) fails the second comparison;
  \<^verbatim>\<open>0.3 + 0.1\<close> is the double \<^verbatim>\<open>0.4\<close>, so (B, A) passes all four.
\<close>

theorem collision_double_counterexample:
  "round_double (3 / 10) < round_double (round_double (4 / 10) - tolerance_double) \<and>
   round_double (round_double (3 / 10) + tolerance_double) = round_double (4 / 10) \<and>
   \<not> collision_double (Some (solid 0 0 (round_double (3 / 10)) 10))
        (Some (solid (round_double (4 / 10)) 0 10 10)) \<and>
   collision_double (Some (solid (round_double (4 / 10)) 0 10 10))
     (Some (solid 0 0 (round_double (3 / 10)) 10))"
  by code_simp

text \<open>
  C7. Two rectangles of non-negative size that touch exactly on one axis (the right edge
  of one equal to the left edge of the other, or the bottom edge of one equal to the top
  edge of the other) and overlap on the other axis collide, in both orders of the
  arguments: the comparisons are closed.
\<close>

theorem collision_touching:
  assumes "0 \<le> width a" "0 \<le> width b" "0 \<le> height a" "0 \<le> height b"
    and "(x a + width a = x b \<and> y a \<le> y b + height b \<and> y b \<le> y a + height a) \<or>
         (y a + height a = y b \<and> x a \<le> x b + width b \<and> x b \<le> x a + width a)"
  shows "collision (Some a) (Some b) \<and> collision (Some b) (Some a)"
  using assms by (auto simp: collision_def getSVGRect_def tolerance_def Let_def)

theorem collision_touching_witness:
  "x (solid 0 0 10 10) + width (solid 0 0 10 10) = x (solid 10 5 4 4) \<and>
   collision (Some (solid 0 0 10 10)) (Some (solid 10 5 4 4)) \<and>
   collision (Some (solid 10 5 4 4)) (Some (solid 0 0 10 10))"
proof -
  have "x (solid 0 0 10 10) + width (solid 0 0 10 10) = x (solid 10 5 4 4)"
    by (simp add: solid_def)
  moreover have "y (solid 0 0 10 10) \<le> y (solid 10 5 4 4) + height (solid 10 5 4 4)"
    and "y (solid 10 5 4 4) \<le> y (solid 0 0 10 10) + height (solid 0 0 10 10)"
    and "0 \<le> width (solid 0 0 10 10)" and "0 \<le> width (solid 10 5 4 4)"
    and "0 \<le> height (solid 0 0 10 10)" and "0 \<le> height (solid 10 5 4 4)"
    by (simp_all add: solid_def)
  ultimately show ?thesis
    using collision_touching [of "solid 0 0 10 10" "solid 10 5 4 4"] by blast
qed

section \<open>Properties of move (jsgame.script.js)\<close>

subsection \<open>What a call writes\<close>

lemma attr_update_twice: "attr_update (attr_update r a v) a w = attr_update r a w"
  by (cases a) simp_all

lemma attr_of_update: "attr_of (attr_update r a v) b = (if a = b then v else attr_of r b)"
  by (cases a; cases b) simp_all

lemma attr_update_tags:
  "traversable (attr_update r a v) = traversable r"
  "parent_pattern (attr_update r a v) = parent_pattern r"
  "elevator_class (attr_update r a v) = elevator_class r"
  "elevator_vel (attr_update r a v) = elevator_vel r"
  "is_on_elevator_previous (attr_update r a v) = is_on_elevator_previous r"
  by (cases a; simp)+

lemma length_setAttrValue: "length (setAttrValue st e a v) = length st"
  by (simp add: setAttrValue_def)

lemma setAttrValue_twice:
  "setAttrValue (setAttrValue st e a v) e a w = setAttrValue st e a w"
  by (simp add: setAttrValue_def attr_update_twice)

lemma node_setAttrValue:
  "node (setAttrValue st e a v) k =
     (if k = e \<and> e < length st then Some (attr_update (st ! e) a (round1 v)) else node st k)"
  by (simp add: node_def setAttrValue_def)

lemma scan_shape:
  "fst (scan st e axis vel before rs) = st \<or>
   (\<exists>v. fst (scan st e axis vel before rs) = setAttrValue st e axis v)"
  by (induction rs) auto

lemma move_shape: "\<exists>v. fst (move st e axis vel) = setAttrValue st e axis v"
  using scan_shape [of "setAttrValue st e axis (getAttrValue (node st e) axis + vel)" e axis vel
      "getAttrValue (node st e) axis" "[0..<length st]"]
  by (auto simp: move_def Let_def length_setAttrValue setAttrValue_twice)

lemma move_same_but: "same_but e axis st (fst (move st e axis vel))"
proof -
  obtain v where v: "fst (move st e axis vel) = setAttrValue st e axis v"
    using move_shape by blast
  show ?thesis unfolding v
    by (simp add: same_but_def setAttrValue_def attr_of_update)
qed

lemma move_tags:
  "traversable (fst (move st e axis vel) ! k) = traversable (st ! k)"
  "parent_pattern (fst (move st e axis vel) ! k) = parent_pattern (st ! k)"
  "elevator_class (fst (move st e axis vel) ! k) = elevator_class (st ! k)"
  "elevator_vel (fst (move st e axis vel) ! k) = elevator_vel (st ! k)"
  "is_on_elevator_previous (fst (move st e axis vel) ! k) = is_on_elevator_previous (st ! k)"
proof -
  obtain v where v: "fst (move st e axis vel) = setAttrValue st e axis v"
    using move_shape by blast
  show "traversable (fst (move st e axis vel) ! k) = traversable (st ! k)"
    "parent_pattern (fst (move st e axis vel) ! k) = parent_pattern (st ! k)"
    "elevator_class (fst (move st e axis vel) ! k) = elevator_class (st ! k)"
    "elevator_vel (fst (move st e axis vel) ! k) = elevator_vel (st ! k)"
    "is_on_elevator_previous (fst (move st e axis vel) ! k) = is_on_elevator_previous (st ! k)"
    unfolding v by (simp_all add: setAttrValue_def nth_list_update attr_update_tags)
qed

lemma length_move: "length (fst (move st e axis vel)) = length st"
  using move_same_but [of e axis st vel] by (simp add: same_but_def)

text \<open>
  C10. A call \<open>move st e axis vel\<close> writes nothing but the attribute \<open>axis\<close> of the node
  \<open>e\<close>: the store keeps its length, every other node is unchanged as a whole (position,
  size, classes and properties), and the node \<open>e\<close> keeps every attribute other than
  \<open>axis\<close> (its coordinate on the other axis, its width and its height) and its classes
  and properties.
\<close>

theorem move_frame:
  "length (fst (move st e axis vel)) = length st \<and>
   (\<forall>k. k \<noteq> e \<longrightarrow> fst (move st e axis vel) ! k = st ! k) \<and>
   (\<forall>a. a \<noteq> axis \<longrightarrow> attr_of (fst (move st e axis vel) ! e) a = attr_of (st ! e) a) \<and>
   traversable (fst (move st e axis vel) ! e) = traversable (st ! e) \<and>
   parent_pattern (fst (move st e axis vel) ! e) = parent_pattern (st ! e) \<and>
   elevator_class (fst (move st e axis vel) ! e) = elevator_class (st ! e) \<and>
   elevator_vel (fst (move st e axis vel) ! e) = elevator_vel (st ! e) \<and>
   is_on_elevator_previous (fst (move st e axis vel) ! e) = is_on_elevator_previous (st ! e)"
  using move_same_but [of e axis st vel] by (simp add: same_but_def move_tags)

theorem move_frame_witness:
  "fst (move [solid 0 0 10 10, solid 0 12 50 20] 0 Y 3) ! 1 = [solid 0 0 10 10, solid 0 12 50 20] ! 1 \<and>
   attr_of (fst (move [solid 0 0 10 10, solid 0 12 50 20] 0 Y 3) ! 0) X = 0 \<and>
   attr_of (fst (move [solid 0 0 10 10, solid 0 12 50 20] 0 Y 3) ! 0) Width = 10 \<and>
   attr_of (fst (move [solid 0 0 10 10, solid 0 12 50 20] 0 Y 3) ! 0) Height = 10 \<and>
   attr_of (fst (move [solid 0 0 10 10, solid 0 12 50 20] 0 Y 3) ! 0) Y = 1"
proof -
  let ?st = "[solid 0 0 10 10, solid 0 12 50 20]"
  note f = move_frame [of ?st 0 Y 3]
  have ne: "(1::nat) \<noteq> 0" "X \<noteq> Y" "Width \<noteq> Y" "Height \<noteq> Y" by simp_all
  from f ne(1) have "fst (move ?st 0 Y 3) ! 1 = ?st ! 1" by blast
  moreover from f ne(2) have "attr_of (fst (move ?st 0 Y 3) ! 0) X = attr_of (?st ! 0) X" by blast
  moreover from f ne(3) have "attr_of (fst (move ?st 0 Y 3) ! 0) Width = attr_of (?st ! 0) Width"
    by blast
  moreover from f ne(4) have "attr_of (fst (move ?st 0 Y 3) ! 0) Height = attr_of (?st ! 0) Height"
    by blast
  moreover have "attr_of (fst (move ?st 0 Y 3) ! 0) Y = 1"
    by code_simp
  ultimately show ?thesis by (simp add: solid_def)
qed

subsection \<open>The scan stops at the first collision\<close>

lemma scan_Cons_hit:
  "scan st e axis vel before (r # rs) =
     (if hit st e r then (setAttrValue st e axis (new_position st e axis vel before r), Some r)
      else scan st e axis vel before rs)"
  by (simp add: hit_def)

lemma scan_upt_Some:
  "scan st e axis vel before [i..<n] = (st1, Some r) \<Longrightarrow>
     i \<le> r \<and> r < n \<and> hit st e r \<and> (\<forall>k. i \<le> k \<and> k < r \<longrightarrow> \<not> hit st e k) \<and>
     st1 = setAttrValue st e axis (new_position st e axis vel before r)"
proof (induction "n - i" arbitrary: i)
  case 0
  then show ?case by simp
next
  case (Suc j)
  then have lt: "i < n" by simp
  show ?case
  proof (cases "hit st e i")
    case True
    with Suc.prems lt show ?thesis by (auto simp: upt_conv_Cons scan_Cons_hit simp del: scan.simps)
  next
    case False
    with Suc.prems lt have "scan st e axis vel before [Suc i..<n] = (st1, Some r)"
      by (simp add: upt_conv_Cons scan_Cons_hit del: scan.simps)
    moreover have "j = n - Suc i" using Suc.hyps(2) by simp
    ultimately have ih: "Suc i \<le> r \<and> r < n \<and> hit st e r \<and>
       (\<forall>k. Suc i \<le> k \<and> k < r \<longrightarrow> \<not> hit st e k) \<and>
       st1 = setAttrValue st e axis (new_position st e axis vel before r)"
      by (rule Suc.hyps(1) [rotated])
    then have "\<forall>k. i \<le> k \<and> k < r \<longrightarrow> \<not> hit st e k"
      using False by (metis Suc_leI le_neq_implies_less)
    with ih show ?thesis by simp
  qed
qed

lemma scan_upt_first:
  "i \<le> r \<Longrightarrow> r < n \<Longrightarrow> hit st e r \<Longrightarrow> (\<forall>k. i \<le> k \<and> k < r \<longrightarrow> \<not> hit st e k) \<Longrightarrow>
   scan st e axis vel before [i..<n] =
     (setAttrValue st e axis (new_position st e axis vel before r), Some r)"
proof (induction "r - i" arbitrary: i)
  case 0
  then have "i = r" by simp
  with 0 show ?case by (simp add: upt_conv_Cons scan_Cons_hit del: scan.simps)
next
  case (Suc j)
  then have "i < r" "\<not> hit st e i" by simp_all
  moreover have "scan st e axis vel before [Suc i..<n] =
     (setAttrValue st e axis (new_position st e axis vel before r), Some r)"
    using Suc.prems Suc.hyps(2) by (intro Suc.hyps(1)) auto
  ultimately show ?case using Suc.prems(2)
    by (simp add: upt_conv_Cons scan_Cons_hit del: scan.simps)
qed

lemma scan_None: "scan st e axis vel before rs = (st1, None) \<Longrightarrow> st1 = st"
  by (induction rs) (auto split: if_splits)

lemma move_tentative:
  "move st e axis vel =
     (let res = scan (tentative st e axis vel) e axis vel (getAttrValue (node st e) axis)
                  [0..<length st]
      in (fst res, getAttrValue (node (fst res) e) axis - getAttrValue (node st e) axis, snd res))"
  by (simp add: move_def tentative_def Let_def length_setAttrValue)

text \<open>A call that reports no blocker has written the tentative position and nothing else.\<close>

lemma move_without_blocker:
  "snd (snd (move st e axis vel)) = None \<Longrightarrow> fst (move st e axis vel) = tentative st e axis vel"
  using scan_None [of "tentative st e axis vel" e axis vel "getAttrValue (node st e) axis"
      "[0..<length st]" "fst (move st e axis vel)"]
  by (simp add: move_tentative Let_def prod_eq_iff)

lemma hit_cong:
  "node st' k = node st k \<Longrightarrow> node st' e = node st e \<Longrightarrow> hit st' e k = hit st e k"
  by (auto simp: hit_def node_def collision_def split: if_splits)

lemma new_position_cong:
  "node st' r = node st r \<Longrightarrow> node st' e = node st e \<Longrightarrow>
   new_position st' e axis vel before r = new_position st e axis vel before r"
  by (simp add: new_position_def)

lemma hit_in_range: "hit st e r \<Longrightarrow> e < length st \<and> r < length st"
  by (auto simp: hit_def collision_def node_def split: if_splits option.splits)

lemma node_take_eq:
  assumes "take (Suc r) st' = take (Suc r) st" "r < length st" "k \<le> r"
  shows "node st' k = node st k"
proof -
  have "length (take (Suc r) st') = Suc r" using assms(1,2) by simp
  then have r': "r < length st'" by simp
  have "take (Suc r) st' ! k = take (Suc r) st ! k" using assms(1) by simp
  then have "st' ! k = st ! k" using assms(3) by simp
  then show ?thesis using assms(2,3) r' by (simp add: node_def)
qed

lemma node_same_entity:
  "e < length st \<Longrightarrow> e < length st' \<Longrightarrow> st' ! e = st ! e \<Longrightarrow> node st' e = node st e"
  by (simp add: node_def)

lemma node_setAttrValue_cong:
  assumes "node st' e = node st e" "node st' k = node st k"
  shows "node (setAttrValue st' e axis v) k = node (setAttrValue st e axis v) k"
proof -
  have "e < length st' \<longleftrightarrow> e < length st" "e < length st \<Longrightarrow> st' ! e = st ! e"
    using assms(1) by (auto simp: node_def split: if_splits)
  then show ?thesis using assms by (auto simp: node_setAttrValue)
qed

lemma node_tentative_cong:
  assumes "node st' e = node st e" "node st' k = node st k"
  shows "node (tentative st' e axis vel) k = node (tentative st e axis vel) k"
  unfolding tentative_def assms(1) using assms by (rule node_setAttrValue_cong)

lemma nth_of_node:
  "k < length st \<Longrightarrow> k < length st' \<Longrightarrow> node st' k = node st k \<Longrightarrow> st' ! k = st ! k"
  by (simp add: node_def)

text \<open>
  C2. When a call \<open>move st e axis vel\<close> reports the blocker \<open>r\<close>, then \<open>r\<close> is the first
  node in document order that passes the tests of the loop against the entity at its
  tentative position, the store returned is the tentative store with the one clamp
  against \<open>r\<close> written, and nothing behind \<open>r\<close> is looked at: in any store \<open>st'\<close> that
  has the same nodes up to and including \<open>r\<close> and the same entity at the same place,
  whatever follows \<open>r\<close>, the call returns the same displacement and blocker and
  leaves the entity the same.
\<close>

theorem move_first_collision_only:
  assumes "move st e axis vel = (st1, d, Some r)"
    and "take (Suc r) st' = take (Suc r) st"
    and "e < length st'" and "st' ! e = st ! e"
  shows "hit (tentative st e axis vel) e r \<and>
         (\<forall>k<r. \<not> hit (tentative st e axis vel) e k) \<and>
         st1 = setAttrValue (tentative st e axis vel) e axis
                 (new_position (tentative st e axis vel) e axis vel (getAttrValue (node st e) axis) r) \<and>
         snd (move st' e axis vel) = (d, Some r) \<and>
         fst (move st' e axis vel) ! e = st1 ! e"
proof -
  let ?b = "getAttrValue (node st e) axis"
  let ?T = "tentative st e axis vel" and ?T' = "tentative st' e axis vel"
  let ?np = "new_position ?T e axis vel ?b r"
  from assms(1) have sc: "scan ?T e axis vel ?b [0..<length st] = (st1, Some r)"
    and d: "d = getAttrValue (node st1 e) axis - ?b"
    by (auto simp: move_tentative Let_def prod_eq_iff)
  from scan_upt_Some [OF sc]
  have r: "r < length st" and h: "hit ?T e r" and first: "\<forall>k. 0 \<le> k \<and> k < r \<longrightarrow> \<not> hit ?T e k"
    and st1: "st1 = setAttrValue ?T e axis ?np"
    by simp_all
  from h have e: "e < length st" using hit_in_range [of ?T e r]
    by (simp add: tentative_def length_setAttrValue)
  have r': "r < length st'"
  proof -
    have "length (take (Suc r) st') = Suc r" using assms(2) r by simp
    then show ?thesis by simp
  qed
  have ne: "node st' e = node st e" using e assms(3,4) by (rule node_same_entity)
  have b': "getAttrValue (node st' e) axis = ?b" by (simp only: ne)
  have nTe: "node ?T' e = node ?T e" using ne ne by (rule node_tentative_cong)
  have nT: "node ?T' k = node ?T k" if "k \<le> r" for k
    using ne node_take_eq [OF assms(2) r that] by (rule node_tentative_cong)
  have h': "hit ?T' e r" using h hit_cong [OF nT [OF order_refl] nTe] by simp
  have first': "\<forall>k. 0 \<le> k \<and> k < r \<longrightarrow> \<not> hit ?T' e k"
  proof (intro allI impI)
    fix k assume k: "0 \<le> k \<and> k < r"
    then have "node ?T' k = node ?T k" by (intro nT) simp
    then have "hit ?T' e k = hit ?T e k" using nTe by (rule hit_cong)
    with first k show "\<not> hit ?T' e k" by blast
  qed
  have np: "new_position ?T' e axis vel ?b r = ?np"
    using nT [OF order_refl] nTe by (rule new_position_cong)
  have sc': "scan ?T' e axis vel ?b [0..<length st'] = (setAttrValue ?T' e axis ?np, Some r)"
    using scan_upt_first [OF _ r' h' first', of axis vel ?b] by (simp only: np le0)
  have same_e: "node (setAttrValue ?T' e axis ?np) e = node (setAttrValue ?T e axis ?np) e"
    using nTe nTe by (rule node_setAttrValue_cong)
  have m': "move st' e axis vel =
      (setAttrValue ?T' e axis ?np,
       getAttrValue (node (setAttrValue ?T' e axis ?np) e) axis - ?b, Some r)"
    unfolding move_tentative Let_def b' sc' by simp
  have "snd (move st' e axis vel) = (d, Some r)"
    unfolding m' d st1 same_e by simp
  moreover have "fst (move st' e axis vel) ! e = st1 ! e"
    unfolding m' st1 fst_conv using same_e
    by (intro nth_of_node) (simp_all add: length_setAttrValue tentative_def e assms(3))
  ultimately show ?thesis using h first st1 by simp
qed

theorem move_first_collision_only_witness:
  "move [solid 0 0 10 10, solid 0 12 50 20, solid 0 11 50 20] 0 Y 3 =
     ([solid 0 1 10 10, solid 0 12 50 20, solid 0 11 50 20], 1, Some 1) \<and>
   snd (move [solid 0 0 10 10, solid 0 12 50 20, solid 70 70 5 5, solid 0 0 9 9] 0 Y 3) = (1, Some 1) \<and>
   fst (move [solid 0 0 10 10, solid 0 12 50 20, solid 70 70 5 5, solid 0 0 9 9] 0 Y 3) ! 0 =
     [solid 0 1 10 10, solid 0 12 50 20, solid 0 11 50 20] ! 0"
proof -
  let ?st = "[solid 0 0 10 10, solid 0 12 50 20, solid 0 11 50 20]"
  let ?st' = "[solid 0 0 10 10, solid 0 12 50 20, solid 70 70 5 5, solid 0 0 9 9]"
  let ?st1 = "[solid 0 1 10 10, solid 0 12 50 20, solid 0 11 50 20]"
  have m: "move ?st 0 Y 3 = (?st1, 1, Some 1)" by code_simp
  have t: "take (Suc 1) ?st' = take (Suc 1) ?st" by simp
  have e: "0 < length ?st'" "?st' ! 0 = ?st ! 0" by simp_all
  from move_first_collision_only [OF m t e]
  have "snd (move ?st' 0 Y 3) = (1, Some 1) \<and> fst (move ?st' 0 Y 3) ! 0 = ?st1 ! 0" by blast
  with m show ?thesis by blast
qed

section \<open>The displacement of move and the distance rule\<close>

subsection \<open>The earlier move (src/unnamed/part_000)\<close>

lemma scan_v0_snoc:
  "scan_v0 st e axis vel before (rs @ [r]) cw =
    (let res = scan_v0 st e axis vel before rs cw in
     if r = e then res
     else if traversable (fst res ! r) then res
     else if collision_v0 (fst res ! r) (fst res ! e) then
        ((fst res)[e := attr_update (fst res ! e) axis (new_position_v0 (fst res) e axis vel before r)], Some r)
     else res)"
  by (induction rs arbitrary: st cw) (auto simp: Let_def)

lemma same_but_refl: "same_but e axis st st"
  by (simp add: same_but_def)

lemma same_but_update:
  "e < length st \<Longrightarrow> same_but e axis st (st[e := attr_update (st ! e) axis v])"
  by (simp add: same_but_def attr_of_update)

lemma same_but_trans:
  "same_but e axis st st' \<Longrightarrow> same_but e axis st' st'' \<Longrightarrow> same_but e axis st st''"
  by (simp add: same_but_def)

lemma scan_v0_same_but:
  "e < length st \<Longrightarrow> same_but e axis st (fst (scan_v0 st e axis vel before rs cw))"
proof (induction rs arbitrary: st cw)
  case Nil
  then show ?case by (simp add: same_but_refl)
next
  case (Cons r rs)
  show ?case
  proof (cases "r \<noteq> e \<and> \<not> traversable (st ! r) \<and> collision_v0 (st ! r) (st ! e)")
    case True
    let ?st = "st[e := attr_update (st ! e) axis (new_position_v0 st e axis vel before r)]"
    have "same_but e axis ?st (fst (scan_v0 ?st e axis vel before rs (Some r)))"
      using Cons.IH [of ?st "Some r"] Cons.prems by simp
    with same_but_update [OF Cons.prems] have "same_but e axis st (fst (scan_v0 ?st e axis vel before rs (Some r)))"
      by (rule same_but_trans)
    with True show ?thesis by simp
  next
    case False
    then show ?thesis using Cons.IH [of st cw] Cons.prems by auto
  qed
qed

lemma new_position_v0_same:
  assumes "same_but e axis st st'" "r \<noteq> e" "axis = X \<or> axis = Y"
  shows "new_position_v0 st' e axis vel before r = new_position_v0 st e axis vel before r"
proof -
  have "sizeName axis \<noteq> axis" using assms(3) by (auto simp: sizeName_def)
  with assms show ?thesis by (simp add: new_position_v0_def same_but_def)
qed

lemma scan_v0_last_write:
  assumes "e < length st" "axis = X \<or> axis = Y"
  shows "scan_v0 st e axis vel before rs None = (st', Some r) \<Longrightarrow>
         attr_of (st' ! e) axis = new_position_v0 st e axis vel before r \<and> r \<noteq> e"
proof (induction rs arbitrary: st' r rule: rev_induct)
  case Nil
  then show ?case by simp
next
  case (snoc q rs)
  let ?res = "scan_v0 st e axis vel before rs None"
  have sb: "same_but e axis st (fst ?res)" using assms(1) by (rule scan_v0_same_but)
  show ?case
  proof (cases "q \<noteq> e \<and> \<not> traversable (fst ?res ! q) \<and> collision_v0 (fst ?res ! q) (fst ?res ! e)")
    case True
    with snoc.prems have st': "st' = (fst ?res)[e := attr_update (fst ?res ! e) axis (new_position_v0 (fst ?res) e axis vel before q)]"
      and r: "r = q" by (auto simp: scan_v0_snoc Let_def)
    have "e < length (fst ?res)" using sb assms(1) by (simp add: same_but_def)
    then have "attr_of (st' ! e) axis = new_position_v0 (fst ?res) e axis vel before q"
      by (simp add: st' attr_of_update)
    also have "\<dots> = new_position_v0 st e axis vel before q"
      using sb True assms(2) by (intro new_position_v0_same) auto
    finally show ?thesis using r True by simp
  next
    case False
    with snoc.prems have "?res = (st', Some r)"
      by (auto simp: scan_v0_snoc Let_def split: if_splits)
    then show ?thesis by (rule snoc.IH)
  qed
qed

lemma new_position_v0_cases:
  "vel \<noteq> 0 \<Longrightarrow> new_position_v0 st e axis vel before r =
     (if \<bar>resting_position_v0 st e axis vel r - before\<bar> \<le> \<bar>vel\<bar>
      then resting_position_v0 st e axis vel r else before)"
  by (auto simp: new_position_v0_def resting_position_v0_def Let_def)

text \<open>
  C1, as the code has it. In the move of src/unnamed/part_000, for an axis x or y and a
  velocity other than 0: when the call reports a blocker \<open>r\<close> (the last colliding
  node it met, as this loop has no \<^verbatim>\<open>break\<close>), the entity's coordinate
  is the clamped resting position against \<open>r\<close> if the distance between that position
  and \<^verbatim>\<open>before\<close> is at most \<open>\<bar>vel\<bar>\<close>, and otherwise it is \<^verbatim>\<open>before\<close> itself: a
  resting position that is too far resets the entity to where it was, it does not leave
  it at the tentative position.
\<close>

theorem move_v0_distance_rule:
  assumes "axis = X \<or> axis = Y" and "vel \<noteq> 0"
    and "move_v0 st e axis vel = Some (st', d, Some r)"
  shows "attr_of (st' ! e) axis =
     (if \<bar>resting_position_v0 st e axis vel r - parseInt (attr_of (st ! e) axis)\<bar> \<le> \<bar>vel\<bar>
      then resting_position_v0 st e axis vel r
      else parseInt (attr_of (st ! e) axis))"
proof -
  let ?before = "parseInt (attr_of (st ! e) axis)"
  let ?st1 = "st[e := attr_update (st ! e) axis (?before + vel)]"
  from assms(3) have e: "e < length st"
    by (simp add: move_v0_def split: if_splits)
  with assms(3) have sc: "scan_v0 ?st1 e axis vel ?before [0..<length st] None = (st', Some r)"
    by (simp add: move_v0_def Let_def prod_eq_iff)
  have e1: "e < length ?st1" using e by simp
  from scan_v0_last_write [OF e1 assms(1) sc]
  have w: "attr_of (st' ! e) axis = new_position_v0 ?st1 e axis vel ?before r" and re: "r \<noteq> e"
    by simp_all
  have "new_position_v0 ?st1 e axis vel ?before r = new_position_v0 st e axis vel ?before r"
    using same_but_update [OF e] re assms(1) by (rule new_position_v0_same)
  with w show ?thesis using assms(2) by (simp add: new_position_v0_cases)
qed

theorem move_v0_distance_rule_witness:
  "move_v0 [solid 0 0 10 10, solid 0 12 50 20] 0 Y 3 =
     Some ([solid 0 1 10 10, solid 0 12 50 20], 1, Some 1) \<and>
   resting_position_v0 [solid 0 0 10 10, solid 0 12 50 20] 0 Y 3 1 = 1 \<and>
   attr_of ([solid 0 1 10 10, solid 0 12 50 20] ! 0) Y = 1"
proof -
  let ?st = "[solid 0 0 10 10, solid 0 12 50 20]"
  let ?st' = "[solid 0 1 10 10, solid 0 12 50 20]"
  have m: "move_v0 ?st 0 Y 3 = Some (?st', 1, Some 1)" by code_simp
  have ax: "Y = X \<or> Y = Y" and v: "(3::rat) \<noteq> 0" by simp_all
  have r: "resting_position_v0 ?st 0 Y 3 1 = 1" by code_simp
  have b: "parseInt (attr_of (?st ! 0) Y) = 0" by code_simp
  from move_v0_distance_rule [OF ax v m]
  have "attr_of (?st' ! 0) Y = 1" unfolding r b by simp
  with m r show ?thesis by blast
qed

text \<open>
  The claim C1 as the specification words it fails on a scene in which the entity
  already overlaps the obstacle. The resting position \<open>-6\<close> is at distance 6 from
  \<^verbatim>\<open>before\<close>, more than the velocity 3. The move of src/unnamed/part_000 rejects it
  and puts the entity back at 0, not at the tentative position 3; the move of
  jsgame.script.js has no distance rule and accepts it.
\<close>

theorem distance_rule_counterexample:
  "move_v0 [solid 0 0 10 10, solid 0 5 50 20] 0 Y 3 =
     Some ([solid 0 0 10 10, solid 0 5 50 20], 0, Some 1) \<and>
   resting_position_v0 [solid 0 0 10 10, solid 0 5 50 20] 0 Y 3 1 = - 6 \<and>
   parseInt (attr_of ([solid 0 0 10 10, solid 0 5 50 20] ! 0) Y) = 0 \<and>
   \<not> \<bar>- 6 - 0\<bar> \<le> \<bar>3 :: rat\<bar> \<and>
   attr_of ([solid 0 0 10 10, solid 0 5 50 20] ! 0) Y \<noteq> 0 + 3 \<and>
   move [solid 0 0 10 10, solid 0 5 50 20] 0 Y 3 =
     ([solid 0 (- 6) 10 10, solid 0 5 50 20], - 6, Some 1)"
  by code_simp

lemma new_position_v0_near: "\<bar>new_position_v0 st e axis vel before r - before\<bar> \<le> \<bar>vel\<bar>"
  by (simp add: new_position_v0_def Let_def)

lemma scan_v0_near:
  "e < length st \<Longrightarrow> \<bar>attr_of (st ! e) axis - before\<bar> \<le> \<bar>vel\<bar> \<Longrightarrow>
   \<bar>attr_of (fst (scan_v0 st e axis vel before rs cw) ! e) axis - before\<bar> \<le> \<bar>vel\<bar>"
proof (induction rs arbitrary: st cw)
  case Nil
  then show ?case by simp
next
  case (Cons r rs)
  show ?case
  proof (cases "r \<noteq> e \<and> \<not> traversable (st ! r) \<and> collision_v0 (st ! r) (st ! e)")
    case True
    let ?st = "st[e := attr_update (st ! e) axis (new_position_v0 st e axis vel before r)]"
    have "\<bar>attr_of (?st ! e) axis - before\<bar> \<le> \<bar>vel\<bar>"
      using Cons.prems(1) by (simp add: attr_of_update new_position_v0_near)
    then have "\<bar>attr_of (fst (scan_v0 ?st e axis vel before rs (Some r)) ! e) axis - before\<bar> \<le> \<bar>vel\<bar>"
      using Cons.prems(1) by (intro Cons.IH) simp_all
    with True show ?thesis by simp
  next
    case False
    then show ?thesis using Cons.IH [of st cw] Cons.prems by auto
  qed
qed

lemma move_v0_bounded:
  assumes "move_v0 st e axis vel = Some (st', d, c)"
  shows "\<bar>d\<bar> \<le> \<bar>vel\<bar>"
proof -
  let ?before = "parseInt (attr_of (st ! e) axis)"
  let ?st1 = "st[e := attr_update (st ! e) axis (?before + vel)]"
  from assms have e: "e < length st"
    by (simp add: move_v0_def split: if_splits)
  with assms have d: "d = attr_of (fst (scan_v0 ?st1 e axis vel ?before [0..<length st] None) ! e) axis - ?before"
    by (auto simp: move_v0_def Let_def)
  have "\<bar>attr_of (?st1 ! e) axis - ?before\<bar> \<le> \<bar>vel\<bar>"
    using e by (simp add: attr_of_update)
  then show ?thesis unfolding d using e by (intro scan_v0_near) simp_all
qed

subsection \<open>The move of jsgame.script.js\<close>

text \<open>
  C4 fails in the move of jsgame.script.js, which writes the resting position without
  the distance rule. The entity stands clear of both obstacles at \<open>y = -1\<close>. Gravity
  clamps it against the floor (node 1), the first collision in document order, and
  leaves it one unit inside the step (node 2). The next call, a run to the right by 3,
  finds the step colliding and puts the entity to the left of it: a displacement of
  \<open>-6\<close> for a velocity of 3. One tick of \<open>main\<close> with the right key held makes
  these two calls.
\<close>

theorem move_displacement_exceeds_velocity:
  "move [solid 20 (- 1) 10 10, solid 0 12 50 20, solid 25 10 50 20] 0 Y 3 =
     ([solid 20 1 10 10, solid 0 12 50 20, solid 25 10 50 20], 2, Some 1) \<and>
   move [solid 20 1 10 10, solid 0 12 50 20, solid 25 10 50 20] 0 X 3 =
     ([solid 14 1 10 10, solid 0 12 50 20, solid 25 10 50 20], - 6, Some 2) \<and>
   \<not> \<bar>- 6\<bar> \<le> \<bar>3 :: rat\<bar> \<and>
   store (main 0 right_key (start_game [solid 20 (- 1) 10 10, solid 0 12 50 20, solid 25 10 50 20])) =
     [solid 14 1 10 10, solid 0 12 50 20, solid 25 10 50 20]"
  by code_simp

section \<open>Properties of main (jsgame.script.js)\<close>

subsection \<open>What the loop body for one elevator changes\<close>

lemma length_elevator_init: "length (elevator_init st el) = length st"
  by (simp add: elevator_init_def)

lemma elevator_init_other:
  "k \<noteq> el \<Longrightarrow> elevator_init st el ! k = st ! k"
  by (simp add: elevator_init_def)

lemma elevator_init_class:
  "elevator_class (elevator_init st el ! k) = elevator_class (st ! k)"
  by (cases "k = el"; cases "el < length st") (simp_all add: elevator_init_def list_update_beyond)

lemma elevator_init_vel_self:
  "el < length st \<Longrightarrow>
   elevator_vel (elevator_init st el ! el) =
     (if elevator_vel (st ! el) = None \<or> elevator_vel (st ! el) = Some 0 then Some 1
      else elevator_vel (st ! el))"
  by (simp add: elevator_init_def)

lemma current_vel_init:
  "el < length st \<Longrightarrow>
   elevator_vel (elevator_init st el ! el) = Some (current_vel (elevator_init st el) el) \<and>
   current_vel (elevator_init st el) el \<noteq> 0"
  by (auto simp: elevator_init_vel_self current_vel_def)

lemma length_mark: "length (mark_on_elevator st el b) = length st"
  by (simp add: mark_on_elevator_def)

lemma mark_other: "k \<noteq> el \<Longrightarrow> mark_on_elevator st el b ! k = st ! k"
  by (simp add: mark_on_elevator_def)

lemma mark_vel: "elevator_vel (mark_on_elevator st el b ! k) = elevator_vel (st ! k)"
  by (cases "k = el"; cases "el < length st") (simp_all add: mark_on_elevator_def list_update_beyond)

lemma mark_class: "elevator_class (mark_on_elevator st el b ! k) = elevator_class (st ! k)"
  by (cases "k = el"; cases "el < length st") (simp_all add: mark_on_elevator_def list_update_beyond)

lemma current_vel_cong:
  "elevator_vel (st' ! el) = elevator_vel (st ! el) \<Longrightarrow> current_vel st' el = current_vel st el"
  by (simp add: current_vel_def)

lemma length_carry_player: "length (carry_player m ground st el) = length st"
  by (simp add: carry_player_def Let_def length_move length_mark length_elevator_init)

lemma carry_player_vel:
  "elevator_vel (carry_player m ground st el ! k) = elevator_vel (elevator_init st el ! k)"
  by (simp add: carry_player_def Let_def move_tags mark_vel)

lemma carry_player_class:
  "elevator_class (carry_player m ground st el ! k) = elevator_class (st ! k)"
  by (simp add: carry_player_def Let_def move_tags mark_class elevator_init_class)

lemma length_reverse_vel: "length (reverse_vel st el) = length st"
  by (simp add: reverse_vel_def)

lemma reverse_vel_other: "k \<noteq> el \<Longrightarrow> reverse_vel st el ! k = st ! k"
  by (simp add: reverse_vel_def)

lemma reverse_vel_self:
  "el < length st \<Longrightarrow>
   elevator_vel (reverse_vel st el ! el) = map_option uminus (elevator_vel (st ! el))"
  by (simp add: reverse_vel_def)

lemma reverse_vel_class: "elevator_class (reverse_vel st el ! k) = elevator_class (st ! k)"
  by (cases "k = el"; cases "el < length st") (simp_all add: reverse_vel_def list_update_beyond)

lemma length_elevator_move: "length (elevator_move m st el) = length st"
  by (simp add: elevator_move_def Let_def length_move length_reverse_vel split: option.splits)

lemma elevator_move_class:
  "elevator_class (elevator_move m st el ! k) = elevator_class (st ! k)"
  by (simp add: elevator_move_def Let_def move_tags reverse_vel_class split: option.splits)

lemma elevator_move_vel_other:
  "k \<noteq> el \<Longrightarrow> elevator_vel (elevator_move m st el ! k) = elevator_vel (st ! k)"
  by (simp add: elevator_move_def Let_def move_tags reverse_vel_other split: option.splits)

lemma elevator_move_vel_self:
  "el < length st \<Longrightarrow>
   elevator_vel (elevator_move m st el ! el) =
     (if stopped_with (move st el Y (current_vel st el)) = None then elevator_vel (st ! el)
      else map_option uminus (elevator_vel (st ! el)))"
  by (auto simp: elevator_move_def Let_def move_tags reverse_vel_self length_move
      split: option.splits)

lemma length_elevator_step: "length (elevator_step m ground st el) = length st"
  by (simp add: elevator_step_def length_elevator_move length_carry_player)

lemma elevator_step_class:
  "elevator_class (elevator_step m ground st el ! k) = elevator_class (st ! k)"
  by (simp add: elevator_step_def elevator_move_class carry_player_class)

lemma elevator_step_vel_other:
  "k \<noteq> el \<Longrightarrow> elevator_vel (elevator_step m ground st el ! k) = elevator_vel (st ! k)"
  by (simp add: elevator_step_def elevator_move_vel_other carry_player_vel elevator_init_other)

lemma elevator_step_vel_self:
  assumes "el < length st"
  shows "elevator_vel (elevator_step m ground st el ! el) =
     (if stopped_with (move (carry_player m ground st el) el Y
            (current_vel (elevator_init st el) el)) = None
      then Some (current_vel (elevator_init st el) el)
      else Some (- current_vel (elevator_init st el) el))"
proof -
  let ?c = "carry_player m ground st el"
  have v: "elevator_vel (?c ! el) = Some (current_vel (elevator_init st el) el)"
    using current_vel_init [OF assms] by (simp add: carry_player_vel)
  then have cv: "current_vel ?c el = current_vel (elevator_init st el) el"
    by (simp add: current_vel_def)
  have "el < length ?c" using assms by (simp add: length_carry_player)
  then show ?thesis
    by (simp add: elevator_step_def elevator_move_vel_self v cv)
qed

lemma length_foldl_step: "length (foldl (elevator_step m ground) st js) = length st"
  by (induction js arbitrary: st) (simp_all add: length_elevator_step)

lemma foldl_step_class:
  "elevator_class (foldl (elevator_step m ground) st js ! k) = elevator_class (st ! k)"
  by (induction js arbitrary: st) (simp_all add: elevator_step_class)

lemma foldl_step_vel_other:
  "k \<notin> set js \<Longrightarrow> elevator_vel (foldl (elevator_step m ground) st js ! k) = elevator_vel (st ! k)"
  by (induction js arbitrary: st) (simp_all add: elevator_step_vel_other)

subsection \<open>A tick and the elevators' velocities\<close>

lemma main_unfold:
  "main m inp g =
     \<lparr>store = fst (move (if jump_counter_set m inp g > 0
                          then fst (move (after_elevators m g) m Y (- 5))
                          else after_elevators m g) m X (3 * run_direction inp)),
      jumping_previous = jumping inp,
      jump_counter =
        (if jump_counter_set m inp g > 0
         then (if y_difference m inp g = 0 \<and> jump_counter_set m inp g - 1 > 0 then 0
               else jump_counter_set m inp g - 1)
         else jump_counter_set m inp g),
      ground_previous = tick_ground m g,
      running = run_direction inp\<rparr>"
  by (simp add: main_def Let_def tick_ground_def after_gravity_def after_elevators_def
      jump_trigger_def jump_counter_set_def y_difference_def)

lemma length_after_gravity: "length (after_gravity m g) = length (store g)"
  by (simp add: after_gravity_def length_move)

lemma after_gravity_class: "elevator_class (after_gravity m g ! k) = elevator_class (store g ! k)"
  by (simp add: after_gravity_def move_tags)

lemma after_gravity_vel: "elevator_vel (after_gravity m g ! k) = elevator_vel (store g ! k)"
  by (simp add: after_gravity_def move_tags)

lemma length_after_elevators: "length (after_elevators m g) = length (store g)"
  by (simp add: after_elevators_def length_foldl_step length_after_gravity)

lemma after_elevators_class:
  "elevator_class (after_elevators m g ! k) = elevator_class (store g ! k)"
  by (simp add: after_elevators_def foldl_step_class after_gravity_class)

lemma length_main: "length (store (main m inp g)) = length (store g)"
  by (simp add: main_unfold length_move length_after_elevators)

lemma main_class: "elevator_class (store (main m inp g) ! k) = elevator_class (store g ! k)"
  by (simp add: main_unfold move_tags after_elevators_class)

lemma main_vel: "elevator_vel (store (main m inp g) ! k) = elevator_vel (after_elevators m g ! k)"
  by (simp add: main_unfold move_tags)

lemma elevators_member:
  "k \<in> set (elevators st) \<longleftrightarrow> k < length st \<and> elevator_class (st ! k)"
  by (auto simp: elevators_def)

lemma distinct_elevators: "distinct (elevators st)"
  by (simp add: elevators_def)

lemma step_keeps_unit:
  assumes "k < length st"
    and "elevator_vel (st ! k) = Some 1 \<or> elevator_vel (st ! k) = Some (- 1)"
  shows "elevator_vel (elevator_step m ground st el ! k) = Some 1 \<or>
         elevator_vel (elevator_step m ground st el ! k) = Some (- 1)"
proof (cases "k = el")
  case True
  have "current_vel (elevator_init st k) k = 1 \<or> current_vel (elevator_init st k) k = - 1"
    using assms by (auto simp: current_vel_def elevator_init_vel_self)
  then show ?thesis using assms(1) True by (auto simp: elevator_step_vel_self)
next
  case False
  then show ?thesis using assms(2) by (simp add: elevator_step_vel_other)
qed

lemma step_makes_unit:
  assumes "k < length st"
    and "elevator_vel (st ! k) = None \<or> elevator_vel (st ! k) = Some 0 \<or>
         elevator_vel (st ! k) = Some 1 \<or> elevator_vel (st ! k) = Some (- 1)"
  shows "elevator_vel (elevator_step m ground st k ! k) = Some 1 \<or>
         elevator_vel (elevator_step m ground st k ! k) = Some (- 1)"
proof -
  have "current_vel (elevator_init st k) k = 1 \<or> current_vel (elevator_init st k) k = - 1"
    using assms by (auto simp: current_vel_def elevator_init_vel_self)
  then show ?thesis using assms(1) by (auto simp: elevator_step_vel_self)
qed

lemma foldl_keeps_unit:
  "k < length st \<Longrightarrow>
   elevator_vel (st ! k) = Some 1 \<or> elevator_vel (st ! k) = Some (- 1) \<Longrightarrow>
   elevator_vel (foldl (elevator_step m ground) st js ! k) = Some 1 \<or>
   elevator_vel (foldl (elevator_step m ground) st js ! k) = Some (- 1)"
proof (induction js arbitrary: st)
  case Nil
  then show ?case by simp
next
  case (Cons a js)
  have "elevator_vel (elevator_step m ground st a ! k) = Some 1 \<or>
        elevator_vel (elevator_step m ground st a ! k) = Some (- 1)"
    using Cons.prems by (rule step_keeps_unit)
  moreover have "k < length (elevator_step m ground st a)"
    using Cons.prems(1) by (simp add: length_elevator_step)
  ultimately show ?case using Cons.IH [of "elevator_step m ground st a"] by simp
qed

lemma foldl_makes_unit:
  "k \<in> set js \<Longrightarrow> k < length st \<Longrightarrow>
   elevator_vel (st ! k) = None \<or> elevator_vel (st ! k) = Some 0 \<or>
   elevator_vel (st ! k) = Some 1 \<or> elevator_vel (st ! k) = Some (- 1) \<Longrightarrow>
   elevator_vel (foldl (elevator_step m ground) st js ! k) = Some 1 \<or>
   elevator_vel (foldl (elevator_step m ground) st js ! k) = Some (- 1)"
proof (induction js arbitrary: st)
  case Nil
  then show ?case by simp
next
  case (Cons a js)
  have len: "k < length (elevator_step m ground st a)"
    using Cons.prems(2) by (simp add: length_elevator_step)
  show ?case
  proof (cases "a = k")
    case True
    have "elevator_vel (elevator_step m ground st k ! k) = Some 1 \<or>
          elevator_vel (elevator_step m ground st k ! k) = Some (- 1)"
      using Cons.prems(2,3) by (rule step_makes_unit)
    with len True show ?thesis
      using foldl_keeps_unit [of k "elevator_step m ground st k" m ground js] by simp
  next
    case False
    then have "k \<in> set js" using Cons.prems(1) by simp
    moreover have "elevator_vel (elevator_step m ground st a ! k) = elevator_vel (st ! k)"
      using False by (simp add: elevator_step_vel_other)
    ultimately show ?thesis using Cons.IH [of "elevator_step m ground st a"] len Cons.prems(3)
      by simp
  qed
qed

lemma main_makes_unit:
  assumes "k < length (store g)" "elevator_class (store g ! k)"
    and "elevator_vel (store g ! k) = None \<or> elevator_vel (store g ! k) = Some 0 \<or>
         elevator_vel (store g ! k) = Some 1 \<or> elevator_vel (store g ! k) = Some (- 1)"
  shows "elevator_vel (store (main m inp g) ! k) = Some 1 \<or>
         elevator_vel (store (main m inp g) ! k) = Some (- 1)"
proof -
  have "k \<in> set (elevators (after_gravity m g))"
    using assms(1,2) by (simp add: elevators_member length_after_gravity after_gravity_class)
  moreover have "k < length (after_gravity m g)" using assms(1) by (simp add: length_after_gravity)
  ultimately show ?thesis using assms(3)
    unfolding main_vel after_elevators_def
    by (intro foldl_makes_unit) (simp_all add: after_gravity_vel)
qed

lemma run_snoc: "run m (inps @ [inp]) g = main m inp (run m inps g)"
  by (induction inps arbitrary: g) simp_all

lemma length_run: "length (store (run m inps g)) = length (store g)"
  by (induction inps arbitrary: g) (simp_all add: length_main)

lemma run_class: "elevator_class (store (run m inps g) ! k) = elevator_class (store g ! k)"
  by (induction inps arbitrary: g) (simp_all add: main_class)

lemma run_makes_unit:
  assumes "k < length (store g)" "elevator_class (store g ! k)"
    and "elevator_vel (store g ! k) = None \<or> elevator_vel (store g ! k) = Some 0 \<or>
         elevator_vel (store g ! k) = Some 1 \<or> elevator_vel (store g ! k) = Some (- 1)"
  shows "inps \<noteq> [] \<Longrightarrow>
         elevator_vel (store (run m inps g) ! k) = Some 1 \<or>
         elevator_vel (store (run m inps g) ! k) = Some (- 1)"
proof (induction inps rule: rev_induct)
  case Nil
  then show ?case by simp
next
  case (snoc inp inps)
  let ?g = "run m inps g"
  have k: "k < length (store ?g)" "elevator_class (store ?g ! k)"
    using assms(1,2) by (simp_all add: length_run run_class)
  have "elevator_vel (store ?g ! k) = None \<or> elevator_vel (store ?g ! k) = Some 0 \<or>
        elevator_vel (store ?g ! k) = Some 1 \<or> elevator_vel (store ?g ! k) = Some (- 1)"
  proof (cases "inps = []")
    case True
    then show ?thesis using assms(3) by simp
  next
    case False
    then show ?thesis using snoc.IH by blast
  qed
  with k show ?case unfolding run_snoc by (rule main_makes_unit)
qed

lemma elevator_entry_split:
  assumes "el < length (store g)" "elevator_class (store g ! el)"
  shows "\<exists>post. elevators (after_gravity m g) =
            takeWhile (\<lambda>j. j \<noteq> el) (elevators (after_gravity m g)) @ el # post \<and> el \<notin> set post"
proof -
  let ?els = "elevators (after_gravity m g)"
  have "el \<in> set ?els"
    using assms by (simp add: elevators_member length_after_gravity after_gravity_class)
  then obtain pre post where sp: "?els = pre @ el # post" "el \<notin> set pre"
    by (meson split_list_first)
  have "takeWhile (\<lambda>j. j \<noteq> el) (pre @ el # post) = pre @ takeWhile (\<lambda>j. j \<noteq> el) (el # post)"
    using sp(2) by (intro takeWhile_append2) auto
  then have "takeWhile (\<lambda>j. j \<noteq> el) ?els = pre"
    using sp(1) by simp
  moreover have "el \<notin> set post" using distinct_elevators [of "after_gravity m g"] sp(1) by simp
  ultimately show ?thesis using sp(1) by auto
qed

lemma length_elevator_entry: "length (elevator_entry m g el) = length (store g)"
  by (simp add: elevator_entry_def length_foldl_step length_after_gravity)

lemma elevator_entry_vel: "elevator_vel (elevator_entry m g el ! el) = elevator_vel (store g ! el)"
proof -
  have "el \<notin> set (takeWhile (\<lambda>j. j \<noteq> el) (elevators (after_gravity m g)))"
    by (auto dest: set_takeWhileD)
  then show ?thesis by (simp add: elevator_entry_def foldl_step_vel_other after_gravity_vel)
qed

lemma tick_vel_eq:
  "el < length (store g) \<Longrightarrow>
   tick_vel m g el =
     (case elevator_vel (store g ! el) of None \<Rightarrow> 1 | Some v \<Rightarrow> if v = 0 then 1 else v)"
  by (simp add: tick_vel_def current_vel_def elevator_init_vel_self length_elevator_entry
      elevator_entry_vel split: option.splits)

lemma after_elevators_vel_self:
  assumes "el < length (store g)" "elevator_class (store g ! el)"
  shows "elevator_vel (after_elevators m g ! el) =
     (if stopped_with (own_move m g el) = None then Some (tick_vel m g el)
      else Some (- tick_vel m g el))"
proof -
  let ?els = "elevators (after_gravity m g)"
  let ?pre = "takeWhile (\<lambda>j. j \<noteq> el) ?els"
  let ?G = "tick_ground m g"
  obtain post where sp: "?els = ?pre @ el # post" "el \<notin> set post"
    using elevator_entry_split [OF assms] by blast
  have len: "el < length (elevator_entry m g el)" using assms(1) by (simp add: length_elevator_entry)
  have cv: "current_vel (carry_player m ?G (elevator_entry m g el) el) el = tick_vel m g el"
    unfolding tick_vel_def by (rule current_vel_cong) (simp add: carry_player_vel)
  have "after_elevators m g =
      foldl (elevator_step m ?G) (elevator_step m ?G (elevator_entry m g el) el) post"
    unfolding after_elevators_def elevator_entry_def by (subst sp(1)) simp
  then have "elevator_vel (after_elevators m g ! el) =
      elevator_vel (elevator_step m ?G (elevator_entry m g el) el ! el)"
    using sp(2) by (simp add: foldl_step_vel_other)
  also have "\<dots> = (if stopped_with (own_move m g el) = None then Some (tick_vel m g el)
      else Some (- tick_vel m g el))"
    using len by (simp add: elevator_step_vel_self own_move_def Let_def cv tick_vel_def)
  finally show ?thesis .
qed

lemma tick_vel_nonzero: "el < length (store g) \<Longrightarrow> tick_vel m g el \<noteq> 0"
  by (simp add: tick_vel_eq split: option.splits)

text \<open>
  C9. An elevator whose \<^verbatim>\<open>elevator_vel\<close> is unset or 0 (as at page load), or already 1 or
  -1, keeps a velocity of exactly 1 or -1: in the tick after any run of ticks the
  velocity it moves with is 1 or -1, that tick leaves the property at this velocity or
  at its negation, and after any run of at least one tick the property is 1 or -1.
\<close>

theorem elevator_vel_unit:
  assumes "k < length (store g)" "elevator_class (store g ! k)"
    and "elevator_vel (store g ! k) = None \<or> elevator_vel (store g ! k) = Some 0 \<or>
         elevator_vel (store g ! k) = Some 1 \<or> elevator_vel (store g ! k) = Some (- 1)"
  shows "(tick_vel m (run m inps g) k = 1 \<or> tick_vel m (run m inps g) k = - 1) \<and>
         (elevator_vel (store (main m inp (run m inps g)) ! k) = Some (tick_vel m (run m inps g) k) \<or>
          elevator_vel (store (main m inp (run m inps g)) ! k) = Some (- tick_vel m (run m inps g) k)) \<and>
         (inps \<noteq> [] \<longrightarrow>
            elevator_vel (store (run m inps g) ! k) = Some 1 \<or>
            elevator_vel (store (run m inps g) ! k) = Some (- 1))"
proof -
  let ?g = "run m inps g"
  have k: "k < length (store ?g)" "elevator_class (store ?g ! k)"
    using assms(1,2) by (simp_all add: length_run run_class)
  have "elevator_vel (store ?g ! k) = None \<or> elevator_vel (store ?g ! k) = Some 0 \<or>
        elevator_vel (store ?g ! k) = Some 1 \<or> elevator_vel (store ?g ! k) = Some (- 1)"
  proof (cases "inps = []")
    case True
    then show ?thesis using assms(3) by simp
  next
    case False
    then show ?thesis using run_makes_unit [OF assms, of inps m] by blast
  qed
  then have "tick_vel m ?g k = 1 \<or> tick_vel m ?g k = - 1"
    using k(1) by (auto simp: tick_vel_eq)
  moreover have "elevator_vel (store (main m inp ?g) ! k) = Some (tick_vel m ?g k) \<or>
      elevator_vel (store (main m inp ?g) ! k) = Some (- tick_vel m ?g k)"
    by (simp add: main_vel after_elevators_vel_self [OF k])
  moreover have "inps \<noteq> [] \<longrightarrow>
      elevator_vel (store ?g ! k) = Some 1 \<or> elevator_vel (store ?g ! k) = Some (- 1)"
    using run_makes_unit [OF assms, of inps m] by blast
  ultimately show ?thesis by blast
qed

theorem elevator_vel_unit_witness:
  "elevator_vel (store (start_game [solid 0 1 10 10, lift 30 8 10 3, solid 0 12 50 20]) ! 1) = None \<and>
   (tick_vel 0 (run 0 [no_keys, no_keys] (start_game [solid 0 1 10 10, lift 30 8 10 3, solid 0 12 50 20])) 1 = 1 \<or>
    tick_vel 0 (run 0 [no_keys, no_keys] (start_game [solid 0 1 10 10, lift 30 8 10 3, solid 0 12 50 20])) 1 = - 1) \<and>
   (elevator_vel (store (run 0 [no_keys, no_keys]
        (start_game [solid 0 1 10 10, lift 30 8 10 3, solid 0 12 50 20])) ! 1) = Some 1 \<or>
    elevator_vel (store (run 0 [no_keys, no_keys]
        (start_game [solid 0 1 10 10, lift 30 8 10 3, solid 0 12 50 20])) ! 1) = Some (- 1)) \<and>
   elevator_vel (store (run 0 [no_keys]
        (start_game [solid 0 1 10 10, lift 30 8 10 3, solid 0 12 50 20])) ! 1) = Some (- 1) \<and>
   store (run 0 [no_keys, no_keys] (start_game [solid 0 1 10 10, lift 30 8 10 3, solid 0 12 50 20])) ! 1 =
     (lift 30 7 10 3)\<lparr>elevator_vel := Some (- 1)\<rparr>"
proof -
  let ?g = "start_game [solid 0 1 10 10, lift 30 8 10 3, solid 0 12 50 20]"
  have k: "1 < length (store ?g)" "elevator_class (store ?g ! 1)"
    by (simp_all add: start_game_def lift_def)
  have v: "elevator_vel (store ?g ! 1) = None" by (simp add: start_game_def lift_def solid_def)
  then have v': "elevator_vel (store ?g ! 1) = None \<or> elevator_vel (store ?g ! 1) = Some 0 \<or>
         elevator_vel (store ?g ! 1) = Some 1 \<or> elevator_vel (store ?g ! 1) = Some (- 1)"
    by simp
  have ne: "[no_keys, no_keys] \<noteq> []" by simp
  note u = elevator_vel_unit [OF k v', of 0 "[no_keys, no_keys]" no_keys]
  from u have "tick_vel 0 (run 0 [no_keys, no_keys] ?g) 1 = 1 \<or>
      tick_vel 0 (run 0 [no_keys, no_keys] ?g) 1 = - 1" by blast
  moreover from u ne have "elevator_vel (store (run 0 [no_keys, no_keys] ?g) ! 1) = Some 1 \<or>
      elevator_vel (store (run 0 [no_keys, no_keys] ?g) ! 1) = Some (- 1)" by blast
  moreover have "elevator_vel (store (run 0 [no_keys] ?g) ! 1) = Some (- 1)" by code_simp
  moreover have "store (run 0 [no_keys, no_keys] ?g) ! 1 = (lift 30 7 10 3)\<lparr>elevator_vel := Some (- 1)\<rparr>"
    by code_simp
  ultimately show ?thesis using v by blast
qed

text \<open>
  C3. In a tick in which the own move of the elevator \<open>el\<close> is fully blocked (zero
  displacement and a blocker \<open>b\<close>), the tick leaves \<^verbatim>\<open>elevator_vel\<close> at the negation of
  the velocity the elevator had in this tick, and the velocity it has in the following
  tick is that negation. The blocker \<open>b\<close> is any node: the player \<open>m\<close> or another
  obstacle.
\<close>

theorem elevator_reverses_when_blocked:
  assumes "el < length (store g)" "elevator_class (store g ! el)"
    and "stopped_with (own_move m g el) = Some b"
  shows "elevator_vel (store (main m inp g) ! el) = Some (- tick_vel m g el) \<and>
         tick_vel m (main m inp g) el = - tick_vel m g el"
proof -
  have v: "elevator_vel (store (main m inp g) ! el) = Some (- tick_vel m g el)"
    using assms(3) by (simp add: main_vel after_elevators_vel_self [OF assms(1,2)])
  have "el < length (store (main m inp g))" using assms(1) by (simp add: length_main)
  then have "tick_vel m (main m inp g) el = - tick_vel m g el"
    using tick_vel_nonzero [OF assms(1), of m] by (simp add: tick_vel_eq v)
  with v show ?thesis by simp
qed

theorem elevator_reverses_when_blocked_witness:
  "stopped_with (own_move 0 (start_game [solid 0 1 10 10, lift 0 (- 4) 10 4, solid 0 12 50 20]) 1) = Some 0 \<and>
   tick_vel 0 (start_game [solid 0 1 10 10, lift 0 (- 4) 10 4, solid 0 12 50 20]) 1 = 1 \<and>
   tick_vel 0 (main 0 no_keys (start_game [solid 0 1 10 10, lift 0 (- 4) 10 4, solid 0 12 50 20])) 1 = - 1 \<and>
   stopped_with (own_move 0 (start_game [solid 0 1 10 10, lift 30 8 10 3, solid 0 12 50 20]) 1) = Some 2 \<and>
   tick_vel 0 (main 0 no_keys (start_game [solid 0 1 10 10, lift 30 8 10 3, solid 0 12 50 20])) 1 = - 1"
proof -
  let ?g = "start_game [solid 0 1 10 10, lift 0 (- 4) 10 4, solid 0 12 50 20]"
  let ?h = "start_game [solid 0 1 10 10, lift 30 8 10 3, solid 0 12 50 20]"
  have s: "stopped_with (own_move 0 ?g 1) = Some 0" by code_simp
  have t: "tick_vel 0 ?g 1 = 1" by code_simp
  have k: "1 < length (store ?g)" "elevator_class (store ?g ! 1)"
    by (simp_all add: start_game_def lift_def)
  have s': "stopped_with (own_move 0 ?h 1) = Some 2" by code_simp
  have t': "tick_vel 0 ?h 1 = 1" by code_simp
  have k': "1 < length (store ?h)" "elevator_class (store ?h ! 1)"
    by (simp_all add: start_game_def lift_def)
  from elevator_reverses_when_blocked [OF k s, of no_keys]
  have "tick_vel 0 (main 0 no_keys ?g) 1 = - 1" unfolding t by simp
  moreover from elevator_reverses_when_blocked [OF k' s', of no_keys]
  have "tick_vel 0 (main 0 no_keys ?h) 1 = - 1" unfolding t' by simp
  ultimately show ?thesis using s t s' by blast
qed

subsection \<open>The player on an elevator\<close>

lemma move_blocker_not_self:
  assumes "snd (snd (move st e axis vel)) = Some r"
  shows "r \<noteq> e \<and> r < length st \<and> e < length st"
proof -
  let ?T = "tentative st e axis vel"
  have "scan ?T e axis vel (getAttrValue (node st e) axis) [0..<length st] =
      (fst (move st e axis vel), Some r)"
    using assms by (simp add: move_tentative Let_def prod_eq_iff)
  from scan_upt_Some [OF this] have "hit ?T e r" by simp
  then show ?thesis using hit_in_range [of ?T e r]
    by (simp add: hit_def tentative_def length_setAttrValue)
qed

lemma stopped_with_Some:
  "stopped_with res = Some r \<Longrightarrow> fst (snd res) = 0 \<and> snd (snd res) = Some r"
  by (simp add: stopped_with_def split: if_splits)

lemma tick_ground_not_player:
  "tick_ground m g = Some el \<Longrightarrow> el \<noteq> m \<and> el < length (store g) \<and> m < length (store g)"
  unfolding tick_ground_def
  using move_blocker_not_self [of "store g" m Y 3 el] stopped_with_Some by blast

lemma move_other: "k \<noteq> e \<Longrightarrow> fst (move st e axis vel) ! k = st ! k"
  using move_same_but [of e axis st vel] by (simp add: same_but_def)

lemma elevator_move_other: "k \<noteq> el \<Longrightarrow> elevator_move m st el ! k = st ! k"
  by (simp add: elevator_move_def Let_def move_other reverse_vel_other split: option.splits)

lemma after_elevators_through:
  assumes "el < length (store g)" "elevator_class (store g ! el)"
  shows "after_elevators m g =
     foldl (elevator_step m (tick_ground m g))
       (elevator_step m (tick_ground m g) (elevator_entry m g el) el)
       (tl (dropWhile (\<lambda>j. j \<noteq> el) (elevators (after_gravity m g))))"
proof -
  let ?els = "elevators (after_gravity m g)"
  let ?P = "\<lambda>j. j \<noteq> el"
  obtain post where sp: "?els = takeWhile ?P ?els @ el # post"
    using elevator_entry_split [OF assms] by blast
  have "takeWhile ?P ?els @ dropWhile ?P ?els = takeWhile ?P ?els @ el # post"
    using sp by simp
  then have d: "dropWhile ?P ?els = el # post" by (simp only: same_append_eq)
  have "foldl (elevator_step m (tick_ground m g)) (after_gravity m g) ?els =
      foldl (elevator_step m (tick_ground m g)) (after_gravity m g) (takeWhile ?P ?els @ el # post)"
    using sp by simp
  then show ?thesis unfolding after_elevators_def elevator_entry_def d by simp
qed

text \<open>
  C6. In a tick whose ground is the elevator \<open>el\<close>, the loop over the elevators passes
  through the loop body for \<open>el\<close>, and that body moves the player along the vertical
  axis by the velocity the elevator has in this tick, \<open>tick_vel m g el\<close>, whatever its
  sign: the store after the coupling is the store after that move, and the player's
  node at the end of the loop body is the player's node after that move.
\<close>

theorem player_carried_by_elevator:
  assumes "tick_ground m g = Some el" and "elevator_class (store g ! el)"
  shows "after_elevators m g =
           foldl (elevator_step m (tick_ground m g))
             (elevator_step m (tick_ground m g) (elevator_entry m g el) el)
             (tl (dropWhile (\<lambda>j. j \<noteq> el) (elevators (after_gravity m g)))) \<and>
         carry_player m (tick_ground m g) (elevator_entry m g el) el =
           fst (move (mark_on_elevator (elevator_init (elevator_entry m g el) el) el True) m Y
                  (tick_vel m g el)) \<and>
         elevator_step m (tick_ground m g) (elevator_entry m g el) el ! m =
           fst (move (mark_on_elevator (elevator_init (elevator_entry m g el) el) el True) m Y
                  (tick_vel m g el)) ! m"
proof -
  let ?st2 = "mark_on_elevator (elevator_init (elevator_entry m g el) el) el True"
  have ne: "m \<noteq> el" and el: "el < length (store g)"
    using tick_ground_not_player [OF assms(1)] by simp_all
  have "current_vel ?st2 el = tick_vel m g el"
    unfolding tick_vel_def by (rule current_vel_cong) (simp add: mark_vel)
  then have c: "carry_player m (tick_ground m g) (elevator_entry m g el) el =
      fst (move ?st2 m Y (tick_vel m g el))"
    by (simp add: carry_player_def Let_def assms(1))
  then have "elevator_step m (tick_ground m g) (elevator_entry m g el) el ! m =
      fst (move ?st2 m Y (tick_vel m g el)) ! m"
    using ne by (simp add: elevator_step_def elevator_move_other)
  with c after_elevators_through [OF el assms(2), of m] show ?thesis by blast
qed

theorem player_carried_by_elevator_witness:
  "tick_ground 0 (start_game [solid 0 1 10 10, (lift 0 12 50 5)\<lparr>elevator_vel := Some (- 1)\<rparr>]) = Some 1 \<and>
   tick_vel 0 (start_game [solid 0 1 10 10, (lift 0 12 50 5)\<lparr>elevator_vel := Some (- 1)\<rparr>]) 1 = - 1 \<and>
   elevator_step 0 (Some 1)
     (elevator_entry 0 (start_game [solid 0 1 10 10, (lift 0 12 50 5)\<lparr>elevator_vel := Some (- 1)\<rparr>]) 1) 1 ! 0 =
     solid 0 0 10 10 \<and>
   tick_ground 0 (start_game [solid 0 1 10 10, lift 0 12 50 5, solid 0 25 50 5]) = Some 1 \<and>
   tick_vel 0 (start_game [solid 0 1 10 10, lift 0 12 50 5, solid 0 25 50 5]) 1 = 1 \<and>
   fst (snd (move (mark_on_elevator (elevator_init
          (elevator_entry 0 (start_game [solid 0 1 10 10, lift 0 12 50 5, solid 0 25 50 5]) 1) 1) 1 True)
        0 Y 1)) = 0 \<and>
   elevator_step 0 (Some 1)
     (elevator_entry 0 (start_game [solid 0 1 10 10, lift 0 12 50 5, solid 0 25 50 5]) 1) 1 ! 0 =
     solid 0 1 10 10"
proof -
  let ?g = "start_game [solid 0 1 10 10, (lift 0 12 50 5)\<lparr>elevator_vel := Some (- 1)\<rparr>]"
  let ?h = "start_game [solid 0 1 10 10, lift 0 12 50 5, solid 0 25 50 5]"
  have g: "tick_ground 0 ?g = Some 1" by code_simp
  have tg: "tick_vel 0 ?g 1 = - 1" by code_simp
  have mg: "fst (move (mark_on_elevator (elevator_init (elevator_entry 0 ?g 1) 1) 1 True) 0 Y (- 1)) ! 0 =
      solid 0 0 10 10" by code_simp
  have h: "tick_ground 0 ?h = Some 1" by code_simp
  have th: "tick_vel 0 ?h 1 = 1" by code_simp
  have mh: "fst (move (mark_on_elevator (elevator_init (elevator_entry 0 ?h 1) 1) 1 True) 0 Y 1) ! 0 =
      solid 0 1 10 10" by code_simp
  have dh: "fst (snd (move (mark_on_elevator (elevator_init (elevator_entry 0 ?h 1) 1) 1 True) 0 Y 1)) = 0"
    by code_simp
  have cg: "elevator_class (store ?g ! 1)" and ch: "elevator_class (store ?h ! 1)"
    by (simp_all add: start_game_def lift_def)
  from player_carried_by_elevator [OF g cg]
  have "elevator_step 0 (Some 1) (elevator_entry 0 ?g 1) 1 ! 0 = solid 0 0 10 10"
    unfolding g tg mg by simp
  moreover from player_carried_by_elevator [OF h ch]
  have "elevator_step 0 (Some 1) (elevator_entry 0 ?h 1) 1 ! 0 = solid 0 1 10 10"
    unfolding h th mh by simp
  ultimately show ?thesis using g tg h th dh by blast
qed

subsection \<open>The jump counter\<close>

lemma main_jump_counter:
  "jump_counter (main m inp g) =
     (if jump_counter_set m inp g > 0
      then (if y_difference m inp g = 0 \<and> jump_counter_set m inp g - 1 > 0 then 0
            else jump_counter_set m inp g - 1)
      else jump_counter_set m inp g)"
  by (simp add: main_unfold)

lemma main_store:
  "store (main m inp g) =
     fst (move (if jump_counter_set m inp g > 0
                then fst (move (after_elevators m g) m Y (- 5))
                else after_elevators m g) m X (3 * run_direction inp))"
  by (simp add: main_unfold)

lemma main_counter_nonneg: "0 \<le> jump_counter g \<Longrightarrow> 0 \<le> jump_counter (main m inp g)"
  by (simp add: main_jump_counter jump_counter_set_def)

lemma run_counter_nonneg: "0 \<le> jump_counter g \<Longrightarrow> 0 \<le> jump_counter (run m inps g)"
  by (induction inps arbitrary: g) (simp_all add: main_counter_nonneg)

lemma run_countdown:
  "no_roof_hit m inps g \<Longrightarrow> no_new_jump m inps g \<Longrightarrow> int (length inps) \<le> jump_counter g \<Longrightarrow>
   jump_counter (run m inps g) = jump_counter g - int (length inps)"
proof (induction inps arbitrary: g)
  case Nil
  then show ?case by simp
next
  case (Cons inp inps)
  then have c: "jump_counter_set m inp g = jump_counter g" "jump_counter g > 0"
    "y_difference m inp g \<noteq> 0"
    by (simp_all add: jump_counter_set_def)
  then have j: "jump_counter (main m inp g) = jump_counter g - 1"
    by (simp add: main_jump_counter)
  have "jump_counter (run m inps (main m inp g)) = jump_counter (main m inp g) - int (length inps)"
    using Cons.prems by (intro Cons.IH) (simp_all add: j)
  then show ?case by (simp add: j)
qed

text \<open>
  C5. The jump counter over ticks. A tick sets the counter to 15 exactly when the jump
  input is true, was false at the previous tick and the tick has a ground; without
  that the counter stays as it is at this point and the tick does not increase it.
  While the counter is positive, the tick moves the player by -5 on the vertical axis
  and leaves the counter decremented by 1, or at 0 when \<^verbatim>\<open>y_difference\<close> is 0 (roof
  hit). A counter that is not positive is left alone, with no ascent. The counter is
  never negative after a run that starts with a non-negative counter. From a tick that
  starts a jump, with no roof hit and no new jump, the counter is 14 after that tick
  and goes down by 1 with every further tick: it reaches 0 at the end of the fifteenth
  tick, counting the tick that started the jump.
\<close>

theorem jump_counter_machine:
  "(jump_trigger m inp g \<longrightarrow> jump_counter_set m inp g = 15) \<and>
   (\<not> jump_trigger m inp g \<longrightarrow>
      jump_counter_set m inp g = jump_counter g \<and>
      jump_counter (main m inp g) \<le> jump_counter g) \<and>
   (jump_counter_set m inp g > 0 \<longrightarrow>
      store (main m inp g) =
        fst (move (fst (move (after_elevators m g) m Y (- 5))) m X (3 * run_direction inp)) \<and>
      jump_counter (main m inp g) =
        (if y_difference m inp g = 0 then 0 else jump_counter_set m inp g - 1)) \<and>
   (jump_counter_set m inp g \<le> 0 \<longrightarrow>
      store (main m inp g) = fst (move (after_elevators m g) m X (3 * run_direction inp)) \<and>
      jump_counter (main m inp g) = jump_counter_set m inp g) \<and>
   (0 \<le> jump_counter g \<longrightarrow> 0 \<le> jump_counter (run m inps g)) \<and>
   (jump_trigger m inp g \<and> no_roof_hit m (inp # inps) g \<and> no_new_jump m inps (main m inp g) \<and>
    length inps \<le> 14 \<longrightarrow>
      jump_counter (run m (inp # inps) g) = 14 - int (length inps))"
proof (intro conjI impI)
  show "jump_counter_set m inp g = 15" if "jump_trigger m inp g"
    using that by (simp add: jump_counter_set_def)
  show "jump_counter_set m inp g = jump_counter g" if "\<not> jump_trigger m inp g"
    using that by (simp add: jump_counter_set_def)
  show "jump_counter (main m inp g) \<le> jump_counter g" if "\<not> jump_trigger m inp g"
    using that by (simp add: main_jump_counter jump_counter_set_def)
  show "store (main m inp g) =
      fst (move (fst (move (after_elevators m g) m Y (- 5))) m X (3 * run_direction inp))"
    if "jump_counter_set m inp g > 0"
    using that by (simp add: main_store)
  show "jump_counter (main m inp g) =
      (if y_difference m inp g = 0 then 0 else jump_counter_set m inp g - 1)"
    if "jump_counter_set m inp g > 0"
    using that by (simp add: main_jump_counter)
  show "store (main m inp g) = fst (move (after_elevators m g) m X (3 * run_direction inp))"
    if "jump_counter_set m inp g \<le> 0"
    using that by (simp add: main_store)
  show "jump_counter (main m inp g) = jump_counter_set m inp g"
    if "jump_counter_set m inp g \<le> 0"
    using that by (simp add: main_jump_counter)
  show "0 \<le> jump_counter (run m inps g)" if "0 \<le> jump_counter g"
    using that by (rule run_counter_nonneg)
  show "jump_counter (run m (inp # inps) g) = 14 - int (length inps)"
    if h: "jump_trigger m inp g \<and> no_roof_hit m (inp # inps) g \<and>
        no_new_jump m inps (main m inp g) \<and> length inps \<le> 14"
  proof -
    from h have "jump_counter_set m inp g = 15" "y_difference m inp g \<noteq> 0"
      by (simp_all add: jump_counter_set_def)
    then have j: "jump_counter (main m inp g) = 14" by (simp add: main_jump_counter)
    have "jump_counter (run m inps (main m inp g)) = jump_counter (main m inp g) - int (length inps)"
      using h by (intro run_countdown) (simp_all add: j)
    then show ?thesis by (simp add: j)
  qed
qed

theorem jump_counter_machine_witness:
  "jump_trigger 0 jump_key (start_game [solid 0 1 10 10, solid 0 12 50 20]) \<and>
   jump_counter_set 0 jump_key (start_game [solid 0 1 10 10, solid 0 12 50 20]) = 15 \<and>
   jump_counter (main 0 jump_key (start_game [solid 0 1 10 10, solid 0 12 50 20])) = 14 \<and>
   store (main 0 jump_key (start_game [solid 0 1 10 10, solid 0 12 50 20])) =
     [solid 0 (- 4) 10 10, solid 0 12 50 20] \<and>
   jump_counter (run 0 (jump_key # replicate 13 jump_key)
     (start_game [solid 0 1 10 10, solid 0 12 50 20])) = 1 \<and>
   jump_counter (run 0 (jump_key # replicate 14 jump_key)
     (start_game [solid 0 1 10 10, solid 0 12 50 20])) = 0 \<and>
   0 \<le> jump_counter (run 0 (jump_key # replicate 14 jump_key)
     (start_game [solid 0 1 10 10, solid 0 12 50 20])) \<and>
   \<not> jump_trigger 0 no_keys (start_game [solid 0 1 10 10, solid 0 12 50 20]) \<and>
   jump_counter (main 0 no_keys (start_game [solid 0 1 10 10, solid 0 12 50 20])) = 0 \<and>
   store (main 0 no_keys (start_game [solid 0 1 10 10, solid 0 12 50 20])) =
     [solid 0 1 10 10, solid 0 12 50 20] \<and>
   y_difference 0 jump_key (start_game [solid 0 1 10 10, solid 0 (- 10) 50 10, solid 0 12 50 20]) = 0 \<and>
   jump_counter (main 0 jump_key
     (start_game [solid 0 1 10 10, solid 0 (- 10) 50 10, solid 0 12 50 20])) = 0"
proof -
  let ?g = "start_game [solid 0 1 10 10, solid 0 12 50 20]"
  let ?r = "start_game [solid 0 1 10 10, solid 0 (- 10) 50 10, solid 0 12 50 20]"
  let ?ups = "replicate 14 jump_key" and ?ups' = "replicate 13 jump_key"
  have trig: "jump_trigger 0 jump_key ?g" by code_simp
  have roof: "no_roof_hit 0 (jump_key # ?ups) ?g" "no_roof_hit 0 (jump_key # ?ups') ?g" by code_simp+
  have again: "no_new_jump 0 ?ups (main 0 jump_key ?g)" "no_new_jump 0 ?ups' (main 0 jump_key ?g)"
    by code_simp+
  have len: "length ?ups \<le> 14" "length ?ups' \<le> 14" by simp_all
  have yd: "y_difference 0 jump_key ?g \<noteq> 0" by code_simp
  have up: "fst (move (fst (move (after_elevators 0 ?g) 0 Y (- 5))) 0 X (3 * run_direction jump_key)) =
      [solid 0 (- 4) 10 10, solid 0 12 50 20]" by code_simp
  have zero: "0 \<le> jump_counter ?g" "jump_counter ?g = 0" by (simp_all add: start_game_def)
  have idle: "\<not> jump_trigger 0 no_keys ?g" by code_simp
  have rest: "fst (move (after_elevators 0 ?g) 0 X (3 * run_direction no_keys)) =
      [solid 0 1 10 10, solid 0 12 50 20]" by code_simp
  have trig_r: "jump_trigger 0 jump_key ?r" by code_simp
  have yd_r: "y_difference 0 jump_key ?r = 0" by code_simp
  note a = jump_counter_machine [of 0 jump_key ?g ?ups]
  note b = jump_counter_machine [of 0 jump_key ?g ?ups']
  note c = jump_counter_machine [of 0 no_keys ?g "jump_key # ?ups"]
  note d = jump_counter_machine [of 0 jump_key ?r "[]"]
  from a trig have set: "jump_counter_set 0 jump_key ?g = 15" by blast
  then have pos: "jump_counter_set 0 jump_key ?g > 0" by simp
  from a pos have "store (main 0 jump_key ?g) =
      fst (move (fst (move (after_elevators 0 ?g) 0 Y (- 5))) 0 X (3 * run_direction jump_key))"
    and "jump_counter (main 0 jump_key ?g) =
      (if y_difference 0 jump_key ?g = 0 then 0 else jump_counter_set 0 jump_key ?g - 1)"
    by blast+
  then have first: "store (main 0 jump_key ?g) = [solid 0 (- 4) 10 10, solid 0 12 50 20]"
      "jump_counter (main 0 jump_key ?g) = 14"
    using yd set up by simp_all
  from a trig roof(1) again(1) len(1)
  have "jump_counter (run 0 (jump_key # ?ups) ?g) = 14 - int (length ?ups)" by blast
  then have full: "jump_counter (run 0 (jump_key # ?ups) ?g) = 0" by simp
  from b trig roof(2) again(2) len(2)
  have "jump_counter (run 0 (jump_key # ?ups') ?g) = 14 - int (length ?ups')" by blast
  then have almost: "jump_counter (run 0 (jump_key # ?ups') ?g) = 1" by simp
  from c zero(1) have nonneg: "0 \<le> jump_counter (run 0 (jump_key # ?ups) ?g)" by blast
  from c idle have "jump_counter_set 0 no_keys ?g = jump_counter ?g" by blast
  then have "jump_counter_set 0 no_keys ?g \<le> 0" using zero(2) by simp
  with c have "store (main 0 no_keys ?g) = fst (move (after_elevators 0 ?g) 0 X (3 * run_direction no_keys))"
    and "jump_counter (main 0 no_keys ?g) = jump_counter_set 0 no_keys ?g"
    by blast+
  then have still: "store (main 0 no_keys ?g) = [solid 0 1 10 10, solid 0 12 50 20]"
      "jump_counter (main 0 no_keys ?g) = 0"
    using rest \<open>jump_counter_set 0 no_keys ?g = jump_counter ?g\<close> zero(2) by simp_all
  from d trig_r have "jump_counter_set 0 jump_key ?r = 15" by blast
  then have "jump_counter_set 0 jump_key ?r > 0" by simp
  with d have "jump_counter (main 0 jump_key ?r) =
      (if y_difference 0 jump_key ?r = 0 then 0 else jump_counter_set 0 jump_key ?r - 1)"
    by blast
  then have hit_roof: "jump_counter (main 0 jump_key ?r) = 0" using yd_r by simp
  show ?thesis
    using trig set first almost full nonneg idle still yd_r hit_roof by blast
qed

end
